theory Spec2Isabelle
  imports Main "HOL-Library.AList" "HOL-Library.Sublist"
begin

section \<open>Strings as the generator uses them\<close>

text \<open>
  Strings are \<^typ>\<open>string\<close> (lists of characters), with the JavaScript string
  operations the generator calls written out.
\<close>

definition startsWith :: "string \<Rightarrow> string \<Rightarrow> bool" where
  "startsWith s pre = (take (length pre) s = pre)"

definition endsWith :: "string \<Rightarrow> string \<Rightarrow> bool" where
  "endsWith s suf = (length suf \<le> length s \<and> drop (length s - length suf) s = suf)"

text \<open>
  \<open>toUpperCase\<close> is \<open>String.prototype.toUpperCase\<close> on one ASCII character: the letters
  \<open>a\<close> to \<open>z\<close> are mapped, every other ASCII character is left alone.  Outside ASCII
  the JavaScript function is not a map from character to character, and this definition
  says nothing about it: every statement below that names an entry through \<open>titleCase\<close>
  is made for a name whose initial is ASCII (\<open>asciiInitial\<close>).
\<close>

definition toUpperCase :: "char \<Rightarrow> char" where
  "toUpperCase c =
     (case map_of (zip ''abcdefghijklmnopqrstuvwxyz'' ''ABCDEFGHIJKLMNOPQRSTUVWXYZ'') c of
        None \<Rightarrow> c
      | Some upper \<Rightarrow> upper)"

definition isAscii :: "char \<Rightarrow> bool" where
  "isAscii c = (\<not> digit7 c)"

definition asciiInitial :: "string \<Rightarrow> bool" where
  "asciiInitial name = (case name of [] \<Rightarrow> False | c # cs \<Rightarrow> isAscii c)"

fun join :: "string \<Rightarrow> string list \<Rightarrow> string" where
  "join sep [] = []"
| "join sep [x] = x"
| "join sep (x # y # ys) = x @ sep @ join sep (y # ys)"

fun split :: "char \<Rightarrow> string \<Rightarrow> string list" where
  "split c [] = [[]]"
| "split c (x # xs) =
     (if x = c then [] # split c xs
      else (case split c xs of [] \<Rightarrow> [[x]] | w # ws \<Rightarrow> (x # w) # ws))"

section \<open>The schema document\<close>

text \<open>
  A type expression of the protocol document is either a string token or a mapping with a
  \<open>type\<close> tag and the fields \<open>items\<close>, \<open>literals\<close> and \<open>properties\<close>, each of which
  may be missing.
\<close>

datatype type_expr =
    Str string
  | Node string "type_expr option" "string list option" "(string \<times> type_expr) list option"

type_synonym props = "(string \<times> type_expr) list"

record tracing =
  snapshot :: bool
  pausesBeforeInput :: bool

record command =
  parameters :: "props option"
  returns :: "props option"
  tracing :: "tracing option"

record event =
  event_parameters :: "props option"

text \<open>
  An entry of the document: the fields the generator reads, each possibly missing.
  A command or an event may be \<open>null\<close> in the document (\<open>None\<close> in its list).
\<close>

record item =
  item_type :: string
  item_extends :: "string option"
  item_initializer :: "props option"
  item_events :: "(string \<times> event option) list option"
  item_commands :: "(string \<times> command option) list option"
  item_properties :: "props option"
  item_literals :: "string list option"

text \<open>
  A JavaScript object is given by the list of its entries in the order in which
  \<open>Object.entries\<close> enumerates them; this holds for the parsed document (\<open>protocol\<close>) and
  for every mapping inside it, so a loop over \<open>Object.entries(x)\<close> is a recursion over
  the list \<open>x\<close>.
\<close>

type_synonym protocol = "(string \<times> item) list"

text \<open>
  The order of enumeration is not the order of the document.  \<open>objectEntries\<close> takes the
  entries of a mapping in the order in which the document writes them (the order in which
  the parser adds the keys to the object) and yields them as \<open>Object.entries\<close> does: first
  the keys that are array indices (canonical decimal numerals below \<open>2^32 - 1\<close>), in
  ascending numeric order, then all other keys in the order of insertion.
\<close>

definition digitValue :: "char \<Rightarrow> nat option" where
  "digitValue c = map_of (zip ''0123456789'' [0, 1, 2, 3, 4, 5, 6, 7, 8, 9]) c"

fun decimal :: "nat \<Rightarrow> string \<Rightarrow> nat option" where
  "decimal acc [] = Some acc"
| "decimal acc (c # cs) =
     (case digitValue c of None \<Rightarrow> None | Some d \<Rightarrow> decimal (10 * acc + d) cs)"

definition arrayIndex :: "string \<Rightarrow> nat option" where
  "arrayIndex key =
     (if key = [] \<or> (hd key = CHR ''0'' \<and> key \<noteq> ''0'') then None
      else (case decimal 0 key of
              None \<Rightarrow> None
            | Some n \<Rightarrow> if n \<le> 4294967294 then Some n else None))"

definition objectEntries :: "(string \<times> 'a) list \<Rightarrow> (string \<times> 'a) list" where
  "objectEntries document =
     sort_key (\<lambda>(key, val). case arrayIndex key of None \<Rightarrow> 0 | Some n \<Rightarrow> n)
       (filter (\<lambda>(key, val). arrayIndex key \<noteq> None) document)
     @ filter (\<lambda>(key, val). arrayIndex key = None) document"

section \<open>Errors\<close>

datatype error =
    TypeError
  | InvalidItem type_expr
  | ENOENT string

text \<open>
  A computation that may throw and may recurse without bound: \<open>None\<close> is "did not
  return" (the fuel ran out), \<open>Some (Inl e)\<close> a thrown error, \<open>Some (Inr v)\<close> a result.
\<close>

type_synonym 'a outcome = "(error + 'a) option"

definition andThen :: "'a outcome \<Rightarrow> ('a \<Rightarrow> 'b outcome) \<Rightarrow> 'b outcome" where
  "andThen m f = (case m of None \<Rightarrow> None | Some (Inl e) \<Rightarrow> Some (Inl e) | Some (Inr v) \<Rightarrow> f v)"

definition titleCase :: "string \<Rightarrow> error + string" where
  "titleCase name = (case name of [] \<Rightarrow> Inl TypeError | c # cs \<Rightarrow> Inr (toUpperCase c # cs))"

section \<open>The type resolver\<close>

record emitted =
  ts :: string
  scheme :: string

record resolved = emitted +
  optional :: bool

text \<open>
  The three global registries: the set \<open>channels\<close>, and the maps \<open>inherits\<close> (whose
  keys are iterated, in insertion order) and \<open>mixins\<close>.
\<close>

record registries =
  channels :: "string set"
  inherits :: "(string \<times> string) list"
  mixins :: "string \<rightharpoonup> item"

definition quoted :: "string \<Rightarrow> string" where
  "quoted literal = CHR 0x27 # literal @ [CHR 0x27]"

text \<open>
  \<open>inlineType\<close>, \<open>properties\<close> and its local closure \<open>visitProperties\<close>.  The closure
  pushes onto the two arrays \<open>ts\<close> and \<open>scheme\<close> of the enclosing call; here it takes the
  pair of arrays and returns it.  \<open>visitEntries\<close> is the \<open>for\<close> loop over
  \<open>Object.entries(props)\<close>.  The fuel bounds the depth of mixin splices only: a splice
  with no fuel left does not return.
\<close>

text \<open>The two lines that \<open>visitProperties\<close> pushes for one property.\<close>

definition tsLine :: "string \<Rightarrow> string \<Rightarrow> resolved \<Rightarrow> string" where
  "tsLine indent name inner =
     indent @ name @ (if optional inner then ''?'' else []) @ '': '' @ ts inner @ '',''"

definition schemeLine :: "string \<Rightarrow> string \<Rightarrow> resolved \<Rightarrow> string" where
  "schemeLine indent name inner =
     indent @ name @ '': ''
     @ (if optional inner then ''tOptional('' @ scheme inner @ '')'' else scheme inner) @ '',''"

function inlineType :: "nat \<Rightarrow> registries \<Rightarrow> type_expr \<Rightarrow> string \<Rightarrow> bool \<Rightarrow> resolved outcome"
  and properties :: "nat \<Rightarrow> registries \<Rightarrow> props option \<Rightarrow> string \<Rightarrow> bool \<Rightarrow> emitted outcome"
  and visitProperties :: "nat \<Rightarrow> registries \<Rightarrow> string \<Rightarrow> bool \<Rightarrow> props option
        \<Rightarrow> string list \<times> string list \<Rightarrow> (string list \<times> string list) outcome"
  and visitEntries :: "nat \<Rightarrow> registries \<Rightarrow> string \<Rightarrow> bool \<Rightarrow> props
        \<Rightarrow> string list \<times> string list \<Rightarrow> (string list \<times> string list) outcome"
where
  "inlineType fuel r (Str type0) indent wrapEnums =
     (let opt = endsWith type0 ''?'';
          type = (if opt then take (length type0 - 1) type0 else type0)
      in if type = ''binary'' then
           Some (Inr \<lparr>ts = ''Binary'', scheme = ''tBinary'', optional = opt\<rparr>)
         else if type = ''json'' then
           Some (Inr \<lparr>ts = ''any'', scheme = ''tAny'', optional = opt\<rparr>)
         else if type \<in> set [''string'', ''boolean'', ''number'', ''undefined''] then
           (case titleCase type of
              Inl e \<Rightarrow> Some (Inl e)
            | Inr t \<Rightarrow> Some (Inr \<lparr>ts = type, scheme = ''t'' @ t, optional = opt\<rparr>))
         else if type \<in> channels r then
           Some (Inr \<lparr>ts = type @ ''Channel'', scheme = ''tChannel('' @ quoted type @ '')'',
                      optional = opt\<rparr>)
         else if type = ''Channel'' then
           Some (Inr \<lparr>ts = ''Channel'', scheme = ''tChannel('' @ quoted ''*'' @ '')'',
                      optional = opt\<rparr>)
         else
           Some (Inr \<lparr>ts = type, scheme = ''tType('' @ quoted type @ '')'', optional = opt\<rparr>))"
| "inlineType fuel r (Node tag items literals props) indent wrapEnums =
     (if startsWith tag ''array'' then
        (case items of
           None \<Rightarrow> Some (Inl TypeError)
         | Some elem \<Rightarrow>
             (case inlineType fuel r elem indent True of
                None \<Rightarrow> None
              | Some (Inl e) \<Rightarrow> Some (Inl e)
              | Some (Inr inner) \<Rightarrow>
                  Some (Inr \<lparr>ts = ts inner @ ''[]'', scheme = ''tArray('' @ scheme inner @ '')'',
                             optional = endsWith tag ''?''\<rparr>)))
      else if startsWith tag ''enum'' then
        (case literals of
           None \<Rightarrow> Some (Inl TypeError)
         | Some ls \<Rightarrow>
             (let t = join '' | '' (map quoted ls)
              in Some (Inr \<lparr>ts = (if wrapEnums then ''('' @ t @ '')'' else t),
                            scheme = ''tEnum(['' @ join '', '' (map quoted ls) @ ''])'',
                            optional = endsWith tag ''?''\<rparr>)))
      else if startsWith tag ''object'' then
        (case properties fuel r props (indent @ ''  '') False of
           None \<Rightarrow> None
         | Some (Inl e) \<Rightarrow> Some (Inl e)
         | Some (Inr inner) \<Rightarrow>
             Some (Inr \<lparr>ts = ''{\<newline>'' @ ts inner @ ''\<newline>'' @ indent @ ''}'',
                        scheme = ''tObject({\<newline>'' @ scheme inner @ ''\<newline>'' @ indent @ ''})'',
                        optional = endsWith tag ''?''\<rparr>))
      else Some (Inl (InvalidItem (Node tag items literals props))))"
| "properties fuel r props indent onlyOptional =
     (case visitProperties fuel r indent onlyOptional props ([], []) of
        None \<Rightarrow> None
      | Some (Inl e) \<Rightarrow> Some (Inl e)
      | Some (Inr (ts_lines, scheme_lines)) \<Rightarrow>
          Some (Inr \<lparr>ts = join ''\<newline>'' ts_lines, scheme = join ''\<newline>'' scheme_lines\<rparr>))"
| "visitProperties fuel r indent onlyOptional None acc = Some (Inl TypeError)"
| "visitProperties fuel r indent onlyOptional (Some ps) acc =
     visitEntries fuel r indent onlyOptional ps acc"
| "visitEntries fuel r indent onlyOptional [] acc = Some (Inr acc)"
| "visitEntries fuel r indent onlyOptional ((name, val) # rest) acc =
     (if startsWith name ''$mixin'' then
        (case val of
           Node _ _ _ _ \<Rightarrow> Some (Inl TypeError)
         | Str v \<Rightarrow>
             (case mixins r v of
                None \<Rightarrow> Some (Inl TypeError)
              | Some m \<Rightarrow>
                  (case fuel of
                     0 \<Rightarrow> None
                   | Suc n \<Rightarrow>
                       (case visitProperties n r indent onlyOptional (item_properties m) acc of
                          None \<Rightarrow> None
                        | Some (Inl e) \<Rightarrow> Some (Inl e)
                        | Some (Inr acc') \<Rightarrow> visitEntries fuel r indent onlyOptional rest acc'))))
      else
        (case inlineType fuel r val indent False of
           None \<Rightarrow> None
         | Some (Inl e) \<Rightarrow> Some (Inl e)
         | Some (Inr inner) \<Rightarrow>
             if onlyOptional \<and> \<not> optional inner then
               visitEntries fuel r indent onlyOptional rest acc
             else
               visitEntries fuel r indent onlyOptional rest
                 (fst acc @ [tsLine indent name inner],
                  snd acc @ [schemeLine indent name inner])))"
  by pat_completeness auto
termination
  by (relation "inv_image (less_than <*lex*> less_than)
        (\<lambda>x. case x of
            Inl (Inl (fuel, r, t, i, w)) \<Rightarrow> (fuel, 4 * size t)
          | Inl (Inr (fuel, r, ps, i, oo)) \<Rightarrow>
              (fuel, 4 * size_option (size_list (size_prod (\<lambda>_. 0) size)) ps + 3)
          | Inr (Inl (fuel, r, i, oo, ps, acc)) \<Rightarrow>
              (fuel, 4 * size_option (size_list (size_prod (\<lambda>_. 0) size)) ps + 2)
          | Inr (Inr (fuel, r, i, oo, ps, acc)) \<Rightarrow>
              (fuel, 4 * size_list (size_prod (\<lambda>_. 0) size) ps + 1))")
    auto

definition objectType :: "nat \<Rightarrow> registries \<Rightarrow> props option \<Rightarrow> string \<Rightarrow> bool \<Rightarrow> emitted outcome" where
  "objectType fuel r props indent onlyOptional =
     (case props of
        None \<Rightarrow> Some (Inl TypeError)
      | Some ps \<Rightarrow>
          if length ps = 0 then Some (Inr \<lparr>ts = ''{}'', scheme = ''tObject({})''\<rparr>)
          else andThen (properties fuel r props (indent @ ''  '') onlyOptional) (\<lambda>inner.
                 Some (Inr \<lparr>ts = ''{\<newline>'' @ ts inner @ ''\<newline>'' @ indent @ ''}'',
                            scheme = ''tObject({\<newline>'' @ scheme inner @ ''\<newline>'' @ indent
                                     @ ''})''\<rparr>)))"

section \<open>The generator script\<close>

text \<open>\<open>x || {}\<close> on a property list that may be missing.\<close>

definition orEmpty :: "props option \<Rightarrow> props option" where
  "orEmpty x = (case x of None \<Rightarrow> Some [] | Some ps \<Rightarrow> Some ps)"

text \<open>\<open>value.extends\<close> where the script tests it for truth: a missing or empty name is false.\<close>

definition extendsOf :: "item \<Rightarrow> string option" where
  "extendsOf value =
     (case item_extends value of None \<Rightarrow> None | Some p \<Rightarrow> if p = [] then None else Some p)"

text \<open>The first loop over the document fills the registries.\<close>

fun collect :: "protocol \<Rightarrow> registries \<Rightarrow> registries" where
  "collect [] r = r"
| "collect ((name, value) # rest) r =
     (let r1 = (if item_type value = ''interface'' then
                  (let r' = r\<lparr>channels := insert name (channels r)\<rparr>
                   in case extendsOf value of
                        None \<Rightarrow> r'
                      | Some parent \<Rightarrow> r'\<lparr>inherits := AList.update name parent (inherits r')\<rparr>)
                else r);
          r2 = (if item_type value = ''mixin'' then r1\<lparr>mixins := (mixins r1)(name \<mapsto> value)\<rparr>
                else r1)
      in collect rest r2)"

definition registriesOf :: "protocol \<Rightarrow> registries" where
  "registriesOf protocol = collect protocol \<lparr>channels = {}, inherits = [], mixins = Map.empty\<rparr>"

text \<open>
  \<open>derivedClasses\<close> maps a parent to the names that extend it.  A lookup that finds
  nothing yields the empty array, in the loop that builds the map (\<open>if (!items)\<close>) and
  where it is read (\<open>derivedClasses.get(name) || []\<close>).
\<close>

definition derivedOf :: "(string \<rightharpoonup> string list) \<Rightarrow> string \<Rightarrow> string list" where
  "derivedOf d name = (case d name of None \<Rightarrow> [] | Some items \<Rightarrow> items)"

fun derive :: "protocol \<Rightarrow> (string \<rightharpoonup> string list) \<Rightarrow> (string \<rightharpoonup> string list)" where
  "derive [] d = d"
| "derive ((name, item) # rest) d =
     (if item_type item = ''interface'' then
        (case extendsOf item of
           None \<Rightarrow> derive rest d
         | Some parent \<Rightarrow> derive rest (d(parent \<mapsto> derivedOf d parent @ [name])))
      else derive rest d)"

definition derivedClasses :: "protocol \<Rightarrow> (string \<rightharpoonup> string list)" where
  "derivedClasses protocol = derive protocol Map.empty"

text \<open>The arrays the script fills.\<close>

record arrays =
  channels_ts :: "string list"
  validator_ts :: "string list"
  tracingSnapshots :: "string list"
  pausesBeforeInputActions :: "string list"

definition push :: "string \<Rightarrow> arrays \<Rightarrow> arrays" where
  "push line out = out\<lparr>channels_ts := channels_ts out @ [line]\<rparr>"

text \<open>\<open>addScheme\<close>: the assignment is split into lines, each indented and pushed.\<close>

definition schemeLines :: "string \<Rightarrow> string \<Rightarrow> string list" where
  "schemeLines name s =
     map (\<lambda>line. ''  '' @ line) (split CHR ''\<newline>'' (''scheme.'' @ name @ '' = '' @ s @ '';''))"

definition addScheme :: "string \<Rightarrow> string \<Rightarrow> arrays \<Rightarrow> arrays" where
  "addScheme name s out = out\<lparr>validator_ts := validator_ts out @ schemeLines name s\<rparr>"

text \<open>
  The three trait chains: each is a loop over \<open>entriesInReverse\<close> that skips what is not
  an interface.  The loops differ in the name of the projected trait only.
  \<open>entriesInReverse\<close> is \<open>Object.entries(protocol).reverse()\<close>, the reverse of the order of
  enumeration (\<open>protocol\<close> is the list that \<open>Object.entries\<close> yields).
\<close>

fun traitLoop :: "string \<Rightarrow> protocol \<Rightarrow> arrays \<Rightarrow> arrays" where
  "traitLoop trait [] out = out"
| "traitLoop trait ((name, item) # rest) out =
     (if item_type item \<noteq> ''interface'' then traitLoop trait rest out
      else traitLoop trait rest
             (push (''    T extends '' @ name @ ''Channel ? '' @ name @ trait @ '' :'') out))"

definition traits :: "protocol \<Rightarrow> arrays \<Rightarrow> arrays" where
  "traits protocol out0 =
     (let entriesInReverse = rev protocol;
          out = push ''// ----------- Initializer Traits -----------'' out0;
          out = push ''export type InitializerTraits<T> ='' out;
          out = traitLoop ''Initializer'' entriesInReverse out;
          out = push ''    object;'' out;
          out = push [] out;
          out = push ''// ----------- Event Traits -----------'' out;
          out = push ''export type EventsTraits<T> ='' out;
          out = traitLoop ''Events'' entriesInReverse out;
          out = push ''    undefined;'' out;
          out = push [] out;
          out = push ''// ----------- EventTarget Traits -----------'' out;
          out = push ''export type EventTargetTraits<T> ='' out;
          out = traitLoop ''EventTarget'' entriesInReverse out;
          out = push ''    undefined;'' out;
          out = push [] out
      in out)"

text \<open>
  \<open>Object.entries(x || {})\<close> on a mapping that may be missing, and an entry of it that is
  \<open>null\<close> in the document and replaced by \<open>{}\<close>.
\<close>

definition entriesOf :: "(string \<times> 'a) list option \<Rightarrow> (string \<times> 'a) list" where
  "entriesOf x = (case x of None \<Rightarrow> [] | Some es \<Rightarrow> es)"

definition eventOrEmpty :: "event option \<Rightarrow> event" where
  "eventOrEmpty event = (case event of None \<Rightarrow> \<lparr>event_parameters = None\<rparr> | Some e \<Rightarrow> e)"

definition commandOrEmpty :: "command option \<Rightarrow> command" where
  "commandOrEmpty method =
     (case method of
        None \<Rightarrow> \<lparr>parameters = None, returns = None, tracing = None\<rparr>
      | Some m \<Rightarrow> m)"

text \<open>
  The loop over the events of one interface.  It fills \<open>channels_ts\<close>, the map \<open>ts_types\<close>
  (iterated in insertion order later) and the array \<open>eventTypes\<close>.
\<close>

definition eventStep :: "nat \<Rightarrow> registries \<Rightarrow> string \<Rightarrow> string \<times> event option
      \<Rightarrow> arrays \<times> (string \<times> string) list \<times> (string \<times> string) list
      \<Rightarrow> (arrays \<times> (string \<times> string) list \<times> (string \<times> string) list) outcome" where
  "eventStep fuel r channelName entry st =
     (case (entry, st) of ((eventName, event0), (out, ts_types, eventTypes)) \<Rightarrow>
       (let event = eventOrEmpty event0
        in andThen (objectType fuel r (orEmpty (event_parameters event)) [] False) (\<lambda>parameters.
           andThen (Some (titleCase eventName)) (\<lambda>title.
             (let paramsName = channelName @ title @ ''Event'';
                  ts_types = AList.update paramsName (ts parameters) ts_types;
                  out = push (''  on(event: '' @ quoted eventName @ '', callback: (params: ''
                              @ paramsName @ '') => void): this;'') out;
                  eventTypes = eventTypes @ [(eventName, paramsName)]
              in Some (Inr (out, ts_types, eventTypes)))))))"

fun eventLoop :: "nat \<Rightarrow> registries \<Rightarrow> string \<Rightarrow> (string \<times> event option) list
      \<Rightarrow> arrays \<times> (string \<times> string) list \<times> (string \<times> string) list
      \<Rightarrow> (arrays \<times> (string \<times> string) list \<times> (string \<times> string) list) outcome" where
  "eventLoop fuel r channelName [] st = Some (Inr st)"
| "eventLoop fuel r channelName (entry # rest) st =
     andThen (eventStep fuel r channelName entry st) (eventLoop fuel r channelName rest)"

text \<open>
  Three strings of the loop over the commands: the validator registered under the name of
  the parameters type, the lazy lookup registered for a derived class, and the signature
  of the method.
\<close>

definition paramsScheme :: "command \<Rightarrow> emitted \<Rightarrow> string" where
  "paramsScheme method params =
     (if parameters method \<noteq> None then scheme params else ''tOptional(tObject({}))'')"

definition lookupByName :: "string \<Rightarrow> string" where
  "lookupByName paramsName = ''tType('' @ quoted paramsName @ '')''"

definition methodSignature :: "string \<Rightarrow> command \<Rightarrow> string \<Rightarrow> string \<Rightarrow> string" where
  "methodSignature methodName method paramsName resultName =
     ''  '' @ methodName @ ''(params'' @ (if parameters method \<noteq> None then [] else ''?'')
     @ '': '' @ paramsName @ '', metadata?: Metadata): Promise<'' @ resultName @ ''>;''"

text \<open>The inner loop over \<open>inherits.keys()\<close> that registers the aliases of one command.\<close>

fun aliasLoop :: "(string \<times> string) list \<Rightarrow> string \<Rightarrow> string \<Rightarrow> string \<Rightarrow> arrays \<Rightarrow> arrays" where
  "aliasLoop [] channelName title paramsName out = out"
| "aliasLoop ((key, parent) # rest) channelName title paramsName out =
     (if parent = channelName then
        aliasLoop rest channelName title paramsName
          (addScheme (key @ title @ ''Params'') (lookupByName paramsName) out)
      else aliasLoop rest channelName title paramsName out)"

text \<open>Recording one flagged command under the channel and under its derived classes.\<close>

definition record_action :: "string list \<Rightarrow> string \<Rightarrow> string \<Rightarrow> string list \<Rightarrow> string list" where
  "record_action derived name methodName actions =
     actions @ [name @ ''.'' @ methodName] @ map (\<lambda>d. d @ ''.'' @ methodName) derived"

definition flagged :: "(tracing \<Rightarrow> bool) \<Rightarrow> command \<Rightarrow> bool" where
  "flagged flag method = (case tracing method of None \<Rightarrow> False | Some t \<Rightarrow> flag t)"

text \<open>The body of the loop over the commands of one interface, and the loop.\<close>

definition commandStep :: "nat \<Rightarrow> registries \<Rightarrow> (string \<rightharpoonup> string list) \<Rightarrow> string
      \<Rightarrow> string \<times> command option \<Rightarrow> arrays \<times> (string \<times> string) list
      \<Rightarrow> (arrays \<times> (string \<times> string) list) outcome" where
  "commandStep fuel r d channelName entry st =
     (case (entry, st) of ((methodName, method0), (out0, ts_types0)) \<Rightarrow>
       (let method = commandOrEmpty method0;
            out = (if flagged snapshot method then
                     out0\<lparr>tracingSnapshots :=
                       record_action (derivedOf d channelName) channelName methodName
                         (tracingSnapshots out0)\<rparr>
                   else out0);
            out = (if flagged pausesBeforeInput method then
                     out\<lparr>pausesBeforeInputActions :=
                       record_action (derivedOf d channelName) channelName methodName
                         (pausesBeforeInputActions out)\<rparr>
                   else out)
        in andThen (objectType fuel r (orEmpty (parameters method)) [] False) (\<lambda>params.
           andThen (Some (titleCase methodName)) (\<lambda>title.
             (let paramsName = channelName @ title @ ''Params'';
                  optionsName = channelName @ title @ ''Options'';
                  ts_types = AList.update paramsName (ts params) ts_types0
              in andThen (objectType fuel r (orEmpty (parameters method)) [] True) (\<lambda>options.
                 (let ts_types = AList.update optionsName (ts options) ts_types;
                      out = addScheme paramsName (paramsScheme method params) out;
                      out = aliasLoop (inherits r) channelName title paramsName out;
                      resultName = channelName @ title @ ''Result''
                  in andThen (objectType fuel r (orEmpty (returns method)) [] False) (\<lambda>rets.
                     (let ts_types = AList.update resultName
                                       (if returns method \<noteq> None then ts rets else ''void'')
                                       ts_types;
                          out = push (methodSignature methodName method paramsName resultName)
                                  out
                      in Some (Inr (out, ts_types)))))))))))"

fun commandLoop :: "nat \<Rightarrow> registries \<Rightarrow> (string \<rightharpoonup> string list) \<Rightarrow> string
      \<Rightarrow> (string \<times> command option) list \<Rightarrow> arrays \<times> (string \<times> string) list
      \<Rightarrow> (arrays \<times> (string \<times> string) list) outcome" where
  "commandLoop fuel r d channelName [] st = Some (Inr st)"
| "commandLoop fuel r d channelName (entry # rest) st =
     andThen (commandStep fuel r d channelName entry st) (commandLoop fuel r d channelName rest)"

text \<open>
  The body of the main loop for an interface, in the three stretches of pushes that lie
  before the loop over the events, between the two loops, and after the loop over the
  commands.
\<close>

definition beforeEvents :: "string \<Rightarrow> emitted \<Rightarrow> arrays \<Rightarrow> arrays" where
  "beforeEvents channelName init out0 =
     (let out = push (''// ----------- '' @ channelName @ '' -----------'') out0;
          initializerName = channelName @ ''Initializer'';
          out = push (''export type '' @ initializerName @ '' = '' @ ts init @ '';'') out;
          out = push (''export interface '' @ channelName @ ''EventTarget {'') out
      in out)"

definition beforeCommands :: "string \<Rightarrow> item \<Rightarrow> arrays \<Rightarrow> arrays" where
  "beforeCommands channelName item out0 =
     (let out = push ''}'' out0;
          out = push (''export interface '' @ channelName @ ''Channel extends ''
                      @ channelName @ ''EventTarget, ''
                      @ (case extendsOf item of None \<Rightarrow> [] | Some p \<Rightarrow> p)
                      @ ''Channel {'') out;
          out = push (''  _type_'' @ channelName @ '': boolean;'') out
      in out)"

definition afterCommands :: "string \<Rightarrow> (string \<times> string) list \<Rightarrow> (string \<times> string) list
      \<Rightarrow> arrays \<Rightarrow> arrays" where
  "afterCommands channelName ts_types eventTypes out0 =
     (let out = push ''}'' out0;
          out = foldl (\<lambda>out (typeName, typeValue).
                         push (''export type '' @ typeName @ '' = '' @ typeValue @ '';'') out)
                  out ts_types;
          out = push [] out;
          out = push (''export interface '' @ channelName @ ''Events {'') out;
          out = foldl (\<lambda>out (eventName, eventType).
                         push (''  '' @ quoted eventName @ '': '' @ eventType @ '';'') out)
                  out eventTypes;
          out = push ''}\<newline>'' out
      in out)"

definition interfaceItem :: "nat \<Rightarrow> registries \<Rightarrow> (string \<rightharpoonup> string list) \<Rightarrow> string \<Rightarrow> item
      \<Rightarrow> arrays \<Rightarrow> arrays outcome" where
  "interfaceItem fuel r d channelName item out =
     andThen (objectType fuel r (orEmpty (item_initializer item)) [] False) (\<lambda>init.
     andThen (eventLoop fuel r channelName (entriesOf (item_events item))
                (beforeEvents channelName init out, [], []))
       (\<lambda>(out, ts_types, eventTypes).
     andThen (commandLoop fuel r d channelName (entriesOf (item_commands item))
                (beforeCommands channelName item out, ts_types))
       (\<lambda>(out, ts_types).
     Some (Inr (afterCommands channelName ts_types eventTypes out)))))"

definition objectItem :: "nat \<Rightarrow> registries \<Rightarrow> string \<Rightarrow> item \<Rightarrow> arrays \<Rightarrow> arrays outcome" where
  "objectItem fuel r name item out =
     andThen (objectType fuel r (item_properties item) [] False) (\<lambda>inner.
       Some (Inr (addScheme name (scheme inner)
                    (push [] (push (''export type '' @ name @ '' = '' @ ts inner @ '';'') out)))))"

definition enumItem :: "string \<Rightarrow> item \<Rightarrow> arrays \<Rightarrow> arrays outcome" where
  "enumItem name item out =
     (case item_literals item of
        None \<Rightarrow> Some (Inl TypeError)
      | Some ls \<Rightarrow>
          Some (Inr (addScheme name (''tEnum(['' @ join '', '' (map quoted ls) @ ''])'')
                       (push (''export type '' @ name @ '' = '' @ join '' | '' (map quoted ls)
                              @ '';'') out))))"

fun mainLoop :: "nat \<Rightarrow> registries \<Rightarrow> (string \<rightharpoonup> string list) \<Rightarrow> protocol \<Rightarrow> arrays
      \<Rightarrow> arrays outcome" where
  "mainLoop fuel r d [] out = Some (Inr out)"
| "mainLoop fuel r d ((name, item) # rest) out =
     andThen (if item_type item = ''interface'' then interfaceItem fuel r d name item out
              else if item_type item = ''object'' then objectItem fuel r name item out
              else if item_type item = ''enum'' then enumItem name item out
              else Some (Inr out))
       (\<lambda>out. mainLoop fuel r d rest out)"

text \<open>The fixed first element of each array: the licence comment and the preamble.\<close>

definition licence :: "string list" where
  "licence =
     [''/**'',
      '' * Copyright (c) Microsoft Corporation.'',
      '' *'',
      '' * Licensed under the Apache License, Version 2.0 (the \"License\");'',
      '' * you may not use this file except in compliance with the License.'',
      '' * You may obtain a copy of the License at'',
      '' *'',
      '' * http://www.apache.org/licenses/LICENSE-2.0'',
      '' *'',
      '' * Unless required by applicable law or agreed to in writing, software'',
      '' * distributed under the License is distributed on an \"AS IS\" BASIS,'',
      '' * WITHOUT WARRANTIES OR CONDITIONS OF ANY KIND, either express or implied.'',
      '' * See the License for the specific language governing permissions and'',
      '' * limitations under the License.'',
      '' */'']"

definition channels_ts_head :: string where
  "channels_ts_head = join ''\<newline>'' (licence @
     [[],
      ''// This file is generated by generate_channels.js, do not edit manually.'',
      [],
      ''export type Binary = string;'',
      [],
      ''export interface Channel {'',
      ''}'',
      []])"

definition validator_ts_head :: string where
  "validator_ts_head = join ''\<newline>'' (licence @
     [[],
      ''// This file is generated by generate_channels.js, do not edit manually.'',
      [],
      ''import type { Validator } from './validatorPrimitives';'',
      ''import { ValidationError, tOptional, tObject, tBoolean, tNumber, tString, tAny, tEnum, tArray, tBinary } from './validatorPrimitives';'',
      ''export type { Validator } from './validatorPrimitives';'',
      ''export { ValidationError } from './validatorPrimitives';'',
      [],
      ''type Scheme = { [key: string]: Validator };'',
      [],
      ''export function createScheme(tChannel: (name: string) => Validator): Scheme {'',
      ''  const scheme: Scheme = {};'',
      [],
      ''  const tType = (name: string): Validator => {'',
      ''    return (arg: any, path: string) => {'',
      ''      const v = scheme[name];'',
      ''      if (!v)'',
      ''        throw new ValidationError(path + ': unknown type \"' + name + '\"');'',
      ''      return v(arg, path);'',
      ''    };'',
      ''  };'',
      []])"

text \<open>\<open>new Set(['${actions.join(`',\n  '`)}'])\<close> as the script writes it out.\<close>

definition setLiteral :: "string \<Rightarrow> string list \<Rightarrow> string" where
  "setLiteral name actions =
     ''export const '' @ name @ '' = new Set([\<newline>  ''
     @ quoted (join (CHR 0x27 # '',\<newline>  '' @ [CHR 0x27]) actions) @ ''\<newline>]);''"

text \<open>Everything the script computes before it touches a file.\<close>

definition generate :: "nat \<Rightarrow> protocol \<Rightarrow> arrays outcome" where
  "generate fuel protocol =
     (let r = registriesOf protocol;
          d = derivedClasses protocol;
          out = \<lparr>channels_ts = [channels_ts_head], validator_ts = [validator_ts_head],
                 tracingSnapshots = [], pausesBeforeInputActions = []\<rparr>;
          out = traits protocol out
      in andThen (mainLoop fuel r d protocol out) (\<lambda>out.
           (let out = push (setLiteral ''commandsWithTracingSnapshots'' (tracingSnapshots out)) out;
                out = push [] out;
                out = push (setLiteral ''pausesBeforeInputActions'' (pausesBeforeInputActions out)) out;
                out = out\<lparr>validator_ts := validator_ts out
                            @ [''\<newline>  return scheme;\<newline>}\<newline>'']\<rparr>
            in Some (Inr out))))"

section \<open>The output writer\<close>

text \<open>
  The file system is a map from path to content; the state of the writer is the file
  system and the flag \<open>hasChanges\<close>.  The message on the console is not modelled, and a
  write to an existing file is taken to succeed.
\<close>

type_synonym files = "string \<rightharpoonup> string"

definition writeFile :: "string \<Rightarrow> string \<Rightarrow> files \<times> bool \<Rightarrow> error + files \<times> bool" where
  "writeFile filePath content st =
     (case st of (fs, hasChanges) \<Rightarrow>
        (case fs filePath of
           None \<Rightarrow> Inl (ENOENT filePath)
         | Some existing \<Rightarrow>
             if existing = content then Inr (fs, hasChanges)
             else Inr (fs(filePath \<mapsto> content), True)))"

definition channels_path :: string where
  "channels_path = ''packages/playwright-core/src/protocol/channels.ts''"

definition validator_path :: string where
  "validator_path = ''packages/playwright-core/src/protocol/validator.ts''"

text \<open>
  The two calls of \<open>writeFile\<close> and the exit, on given contents.  The result is the file
  system the run leaves behind and either the error that aborted it or the exit status.
\<close>

definition writeBoth :: "string \<Rightarrow> string \<Rightarrow> files \<Rightarrow> files \<times> (error + nat)" where
  "writeBoth channels_content validator_content fs =
     (case writeFile channels_path channels_content (fs, False) of
        Inl e \<Rightarrow> (fs, Inl e)
      | Inr st1 \<Rightarrow>
          (case writeFile validator_path validator_content st1 of
             Inl e \<Rightarrow> (fst st1, Inl e)
           | Inr (fs2, hasChanges) \<Rightarrow> (fs2, Inr (if hasChanges then 1 else 0))))"

text \<open>The whole script, from the parsed document and the file system.\<close>

definition generate_channels :: "nat \<Rightarrow> protocol \<Rightarrow> files \<Rightarrow> (files \<times> (error + nat)) option" where
  "generate_channels fuel protocol fs =
     (case generate fuel protocol of
        None \<Rightarrow> None
      | Some (Inl e) \<Rightarrow> Some (fs, Inl e)
      | Some (Inr out) \<Rightarrow>
          Some (writeBoth (join ''\<newline>'' (channels_ts out)) (join ''\<newline>'' (validator_ts out)) fs))"

section \<open>The generated registry at run time\<close>

text \<open>
  The preamble of the generated validator file defines \<open>tType\<close>: a validator that looks
  its name up in the object \<open>scheme\<close> (here \<open>registry\<close>) when it is applied, and throws when the name is not there.
\<close>

datatype validation_error = ValidationError string

definition tType :: "(string \<rightharpoonup> ('v \<Rightarrow> string \<Rightarrow> validation_error + 'w)) \<Rightarrow> string
      \<Rightarrow> 'v \<Rightarrow> string \<Rightarrow> validation_error + 'w" where
  "tType registry name arg path =
     (case registry name of
        None \<Rightarrow> Inl (ValidationError (path @ '': unknown type \"'' @ name @ ''\"''))
      | Some v \<Rightarrow> v arg path)"

text \<open>Whether a computation returned a result, neither throwing nor running forever.\<close>

definition returned :: "'a outcome \<Rightarrow> bool" where
  "returned x = (case x of Some (Inr v) \<Rightarrow> True | _ \<Rightarrow> False)"

text \<open>The result, where there is one.\<close>

definition resultOf :: "'a outcome \<Rightarrow> 'a option" where
  "resultOf x = (case x of Some (Inr v) \<Rightarrow> Some v | _ \<Rightarrow> None)"

section \<open>The user agent string\<close>

text \<open>
  \<open>determineUserAgent\<close> reads the process and the operating system.  What it reads is
  gathered in a record; a read that can throw (\<open>execSync\<close>, \<open>require\<close>, and
  \<open>getLinuxDistributionInfoSync\<close>, which lives in another module) is a sum with the
  thrown value on the left.
\<close>

datatype js_error = JsError string

record distro =
  distro_id :: string
  distro_version :: string

record environment =
  platform :: string
  os_release :: string
  os_arch :: string
  sw_vers :: "js_error + string"
  linuxDistributionInfo :: "js_error + distro option"
  env_CI :: "string option"
  env_PW_LANG_NAME :: "string option"
  env_PW_LANG_NAME_VERSION :: "string option"
  process_version :: string
  packageJson_version :: "js_error + string"

text \<open>An environment variable tested for truth: unset and empty are false.\<close>

definition isSet :: "string option \<Rightarrow> bool" where
  "isSet v = (case v of None \<Rightarrow> False | Some s \<Rightarrow> s \<noteq> [])"

text \<open>\<open>`${version[i]}`\<close>: an index past the end reads \<open>undefined\<close>, printed as such.\<close>

definition element :: "string list \<Rightarrow> nat \<Rightarrow> string" where
  "element version i = (if i < length version then version ! i else ''undefined'')"

definition isSpace :: "char \<Rightarrow> bool" where
  "isSpace c = (c \<in> set [CHR '' '', CHR ''\<newline>'', CHR 0x09, CHR 0x0B, CHR 0x0C, CHR 0x0D])"

definition trim :: "string \<Rightarrow> string" where
  "trim s = rev (dropWhile isSpace (rev (dropWhile isSpace s)))"

definition getClientLanguage :: "environment \<Rightarrow> string \<times> string" where
  "getClientLanguage env =
     (if \<not> isSet (env_PW_LANG_NAME env) then
        (''node'', join ''.'' (take 2 (split CHR ''.'' (drop 1 (process_version env)))))
      else if the (env_PW_LANG_NAME env) \<in> set [''node'', ''python'', ''java'', ''csharp''] then
        (the (env_PW_LANG_NAME env),
         (case env_PW_LANG_NAME_VERSION env of None \<Rightarrow> ''unknown'' | Some v \<Rightarrow> v))
      else (''unknown'', ''unknown''))"

definition getPlaywrightVersion :: "environment \<Rightarrow> bool \<Rightarrow> js_error + string" where
  "getPlaywrightVersion env majorMinorOnly =
     (case packageJson_version env of
        Inl e \<Rightarrow> Inl e
      | Inr version \<Rightarrow>
          Inr (if majorMinorOnly then join ''.'' (take 2 (split CHR ''.'' version)) else version))"

text \<open>The operating system's name and version, the first part of \<open>determineUserAgent\<close>.\<close>

definition osIdentifierAndVersion :: "environment \<Rightarrow> js_error + string \<times> string" where
  "osIdentifierAndVersion env =
     (if platform env = ''win32'' then
        (let version = split CHR ''.'' (os_release env)
         in Inr (''windows'', element version 0 @ ''.'' @ element version 1))
      else if platform env = ''darwin'' then
        (case sw_vers env of
           Inl e \<Rightarrow> Inl e
         | Inr out \<Rightarrow>
             (let version = split CHR ''.'' (trim out)
              in Inr (''macOS'', element version 0 @ ''.'' @ element version 1)))
      else if platform env = ''linux'' then
        (case linuxDistributionInfo env of
           Inl e \<Rightarrow> Inl e
         | Inr None \<Rightarrow> Inr (''linux'', ''unknown'')
         | Inr (Some distroInfo) \<Rightarrow>
             Inr (if distro_id distroInfo = [] then ''linux'' else distro_id distroInfo,
                  if distro_version distroInfo = [] then ''unknown''
                  else distro_version distroInfo))
      else Inr (''unknown'', ''unknown''))"

definition determineUserAgent :: "environment \<Rightarrow> js_error + string" where
  "determineUserAgent env =
     (case osIdentifierAndVersion env of
        Inl e \<Rightarrow> Inl e
      | Inr (osIdentifier, osVersion) \<Rightarrow>
          (let additionalTokens = (if isSet (env_CI env) then [''CI/1''] else []);
               serializedTokens = (if length additionalTokens \<noteq> 0
                                   then '' '' @ join '' '' additionalTokens else []);
               (langName, langVersion) = getClientLanguage env
           in case getPlaywrightVersion env False of
                Inl e \<Rightarrow> Inl e
              | Inr version \<Rightarrow>
                  Inr (''Playwright/'' @ version @ '' ('' @ os_arch env @ ''; '' @ osIdentifier
                       @ '' '' @ osVersion @ '') '' @ langName @ ''/'' @ langVersion
                       @ serializedTokens)))"

text \<open>
  \<open>getUserAgent\<close> with the module variable \<open>cachedUserAgent\<close> passed in and returned.
  The \<open>try\<close> block turns every throw of \<open>determineUserAgent\<close> into the fallback.
\<close>

definition getUserAgent :: "environment \<Rightarrow> string option \<Rightarrow> js_error + string \<times> string option" where
  "getUserAgent env cachedUserAgent =
     (if isSet cachedUserAgent then Inr (the cachedUserAgent, cachedUserAgent)
      else
        (let computed = (case determineUserAgent env of
                           Inr agent \<Rightarrow> agent
                         | Inl e \<Rightarrow> ''Playwright/unknown'')
         in Inr (computed, Some computed)))"

text \<open>
  A sequence of calls, each in the environment of its moment, from a given cache: the
  strings returned, in order (a throwing call would end the sequence).
\<close>

fun calls :: "environment list \<Rightarrow> string option \<Rightarrow> string list" where
  "calls [] cachedUserAgent = []"
| "calls (env # envs) cachedUserAgent =
     (case getUserAgent env cachedUserAgent of
        Inl e \<Rightarrow> []
      | Inr (agent, cached) \<Rightarrow> agent # calls envs cached)"

text \<open>
  Modelled from the spec: the validator primitives \<open>tOptional\<close>, \<open>tObject\<close> and \<open>tString\<close>
  that the generated file imports from \<open>validatorPrimitives\<close>, a module that is not part
  of the sources at hand.  A validator structurally checks a value against a type and
  reports an error qualified by the path of the field; the optional combinator lets an
  absent value through; an object validator checks that the value is an object and then
  every listed property, an absent property being the absent value.  The error of a
  primitive carries the path of the field and nothing else: the wording of its message is
  not modelled.
\<close>

datatype js_value =
    Undefined
  | Null
  | Boolean bool
  | Number int
  | String string
  | Array "js_value list"
  | Object "(string \<times> js_value) list"

type_synonym validator = "js_value \<Rightarrow> string \<Rightarrow> validation_error + js_value"

definition tOptional :: "validator \<Rightarrow> validator" where
  "tOptional v arg path = (if arg = Undefined then Inr arg else v arg path)"

definition tString :: validator where
  "tString arg path =
     (case arg of
        String s \<Rightarrow> Inr arg
      | _ \<Rightarrow> Inl (ValidationError path))"

fun checkProperties :: "(string \<times> validator) list \<Rightarrow> (string \<times> js_value) list \<Rightarrow> string
      \<Rightarrow> validation_error option" where
  "checkProperties [] members path = None"
| "checkProperties ((name, v) # rest) members path =
     (case v (case map_of members name of None \<Rightarrow> Undefined | Some x \<Rightarrow> x)
             (path @ ''.'' @ name) of
        Inl e \<Rightarrow> Some e
      | Inr _ \<Rightarrow> checkProperties rest members path)"

definition tObject :: "(string \<times> validator) list \<Rightarrow> validator" where
  "tObject s arg path =
     (case arg of
        Object members \<Rightarrow>
          (case checkProperties s members path of None \<Rightarrow> Inr arg | Some e \<Rightarrow> Inl e)
      | _ \<Rightarrow> Inl (ValidationError path))"

text \<open>Whether a validator lets a value through.\<close>

definition accepts :: "validator \<Rightarrow> js_value \<Rightarrow> string \<Rightarrow> bool" where
  "accepts v arg path = (case v arg path of Inl e \<Rightarrow> False | Inr x \<Rightarrow> True)"

section \<open>The property list as the specification describes it\<close>








section \<open>Documents on which the generation returns\<close>

text \<open>
  A sufficient condition for the generation to return its arrays.  A type expression is
  well formed when the resolver has a branch for it that does not throw: an array has
  its \<open>items\<close>, an enum its \<open>literals\<close>, an object its \<open>properties\<close>, and the tag is one of
  the three.  A splice is well formed when it names a declared mixin that has a property
  list and whose \<open>rank\<close> is below the bound \<open>n\<close>; the property list of a mixin is checked
  against the bound \<open>rank name\<close>, so the rank decreases along every chain of splices and
  \<open>n\<close> bounds the depth of the chains, which is the fuel the resolver needs.
\<close>

fun wellFormedType :: "(string \<rightharpoonup> item) \<Rightarrow> (string \<Rightarrow> nat) \<Rightarrow> nat \<Rightarrow> type_expr \<Rightarrow> bool"
  and wellFormedEntries :: "(string \<rightharpoonup> item) \<Rightarrow> (string \<Rightarrow> nat) \<Rightarrow> nat \<Rightarrow> props \<Rightarrow> bool"
where
  "wellFormedType mx rank n (Str token) = True"
| "wellFormedType mx rank n (Node tag items literals props) =
     (if startsWith tag ''array'' then
        (case items of None \<Rightarrow> False | Some elem \<Rightarrow> wellFormedType mx rank n elem)
      else if startsWith tag ''enum'' then literals \<noteq> None
      else if startsWith tag ''object'' then
        (case props of None \<Rightarrow> False | Some ps \<Rightarrow> wellFormedEntries mx rank n ps)
      else False)"
| "wellFormedEntries mx rank n [] = True"
| "wellFormedEntries mx rank n ((name, val) # rest) =
     ((if startsWith name ''$mixin'' then
         (case val of
            Node _ _ _ _ \<Rightarrow> False
          | Str v \<Rightarrow>
              (case mx v of
                 None \<Rightarrow> False
               | Some m \<Rightarrow> item_properties m \<noteq> None \<and> rank v < n))
       else wellFormedType mx rank n val)
      \<and> wellFormedEntries mx rank n rest)"

definition wellFormedProps :: "(string \<rightharpoonup> item) \<Rightarrow> (string \<Rightarrow> nat) \<Rightarrow> nat \<Rightarrow> props option
      \<Rightarrow> bool" where
  "wellFormedProps mx rank n props =
     (case props of None \<Rightarrow> False | Some ps \<Rightarrow> wellFormedEntries mx rank n ps)"

text \<open>The names that are title-cased (events and commands) must not be empty.\<close>

definition wellFormedEvent :: "(string \<rightharpoonup> item) \<Rightarrow> (string \<Rightarrow> nat) \<Rightarrow> nat
      \<Rightarrow> string \<times> event option \<Rightarrow> bool" where
  "wellFormedEvent mx rank n entry =
     (case entry of (eventName, event) \<Rightarrow>
        eventName \<noteq> []
        \<and> wellFormedProps mx rank n (orEmpty (event_parameters (eventOrEmpty event))))"

definition wellFormedCommand :: "(string \<rightharpoonup> item) \<Rightarrow> (string \<Rightarrow> nat) \<Rightarrow> nat
      \<Rightarrow> string \<times> command option \<Rightarrow> bool" where
  "wellFormedCommand mx rank n entry =
     (case entry of (methodName, method) \<Rightarrow>
        methodName \<noteq> []
        \<and> wellFormedProps mx rank n (orEmpty (parameters (commandOrEmpty method)))
        \<and> wellFormedProps mx rank n (orEmpty (returns (commandOrEmpty method))))"

definition wellFormedItem :: "(string \<rightharpoonup> item) \<Rightarrow> (string \<Rightarrow> nat) \<Rightarrow> nat
      \<Rightarrow> string \<times> item \<Rightarrow> bool" where
  "wellFormedItem mx rank n entry =
     (case entry of (name, item) \<Rightarrow>
        if item_type item = ''interface'' then
          wellFormedProps mx rank n (orEmpty (item_initializer item))
          \<and> list_all (wellFormedEvent mx rank n) (entriesOf (item_events item))
          \<and> list_all (wellFormedCommand mx rank n) (entriesOf (item_commands item))
        else if item_type item = ''object'' then wellFormedProps mx rank n (item_properties item)
        else if item_type item = ''enum'' then item_literals item \<noteq> None
        else if item_type item = ''mixin'' then
          (case item_properties item of
             None \<Rightarrow> True
           | Some ps \<Rightarrow> wellFormedEntries mx rank (rank name) ps)
        else True)"

definition wellFormed :: "(string \<Rightarrow> nat) \<Rightarrow> nat \<Rightarrow> protocol \<Rightarrow> bool" where
  "wellFormed rank n protocol =
     list_all (wellFormedItem (mixins (registriesOf protocol)) rank n) protocol"

text \<open>
  The names that the script title-cases are those of the events and of the commands of
  the interfaces.  On a document in which each of them starts with an ASCII character,
  \<open>titleCase\<close> is what the script computes.
\<close>

definition asciiTitles :: "protocol \<Rightarrow> bool" where
  "asciiTitles protocol =
     list_all (\<lambda>(name, item).
         if item_type item = ''interface'' then
           list_all (\<lambda>(eventName, event). asciiInitial eventName) (entriesOf (item_events item))
           \<and> list_all (\<lambda>(methodName, method). asciiInitial methodName)
                 (entriesOf (item_commands item))
         else True)
       protocol"

section \<open>The assignments of the generated registry\<close>

text \<open>
  The calls of \<open>addScheme\<close> in the order in which the script makes them, each as the pair
  of the name and the right-hand side: for a command, the validator of its parameters
  and then one lookup for every key of \<open>inherits\<close> whose parent is the channel; for an
  object and for an enum, its own validator.  \<open>validator_ts\<close> is shown below to be the
  preamble, the lines of these assignments, and the closing lines.
\<close>

definition commandAssignments :: "nat \<Rightarrow> registries \<Rightarrow> string \<Rightarrow> string \<times> command option
      \<Rightarrow> (string \<times> string) list" where
  "commandAssignments fuel r channelName entry =
     (case entry of (methodName, method0) \<Rightarrow>
        (case (objectType fuel r (orEmpty (parameters (commandOrEmpty method0))) [] False,
               titleCase methodName) of
           (Some (Inr params), Inr title) \<Rightarrow>
             (channelName @ title @ ''Params'', paramsScheme (commandOrEmpty method0) params)
             # map (\<lambda>(key, parent).
                     (key @ title @ ''Params'', lookupByName (channelName @ title @ ''Params'')))
                 (filter (\<lambda>(key, parent). parent = channelName) (inherits r))
         | _ \<Rightarrow> []))"

definition itemAssignments :: "nat \<Rightarrow> registries \<Rightarrow> string \<times> item \<Rightarrow> (string \<times> string) list" where
  "itemAssignments fuel r entry =
     (case entry of (name, item) \<Rightarrow>
        if item_type item = ''interface'' then
          concat (map (commandAssignments fuel r name) (entriesOf (item_commands item)))
        else if item_type item = ''object'' then
          (case objectType fuel r (item_properties item) [] False of
             Some (Inr inner) \<Rightarrow> [(name, scheme inner)]
           | _ \<Rightarrow> [])
        else if item_type item = ''enum'' then
          (case item_literals item of
             None \<Rightarrow> []
           | Some ls \<Rightarrow> [(name, ''tEnum(['' @ join '', '' (map quoted ls) @ ''])'')])
        else [])"

definition assignments :: "nat \<Rightarrow> protocol \<Rightarrow> (string \<times> string) list" where
  "assignments fuel protocol =
     concat (map (itemAssignments fuel (registriesOf protocol)) protocol)"

definition assignmentLines :: "(string \<times> string) list \<Rightarrow> string list" where
  "assignmentLines as = concat (map (\<lambda>(name, s). schemeLines name s) as)"

text \<open>
  The generated function \<open>createScheme\<close> runs the assignments \<open>scheme.name = ...;\<close> in
  order and returns the object, so the entry that the registry holds under a name at run
  time is the right-hand side of the last assignment to it.
\<close>

definition registered :: "(string \<times> string) list \<Rightarrow> string \<Rightarrow> string option" where
  "registered as name = map_of (rev as) name"

text \<open>The names of the interfaces among some entries, in the order of the entries.\<close>

definition channelNames :: "protocol \<Rightarrow> string list" where
  "channelNames entries =
     map fst (filter (\<lambda>(name, item). item_type item = ''interface'') entries)"

section \<open>The types of an interface\<close>






section \<open>Sample documents\<close>

text \<open>
  A mixin that is spliced into the parameters of a command, and three generations of
  channels: \<open>A\<close>, whose command \<open>m\<close> carries \<open>tracing.snapshot\<close>, is extended by \<open>B\<close>, which
  is extended by \<open>G\<close>.
\<close>

definition sampleTracing :: protocol where
  "sampleTracing =
     [(''M'', \<lparr>item_type = ''mixin'', item_extends = None, item_initializer = None,
         item_events = None, item_commands = None,
         item_properties = Some [(''timeout'', Str ''number?'')], item_literals = None\<rparr>),
      (''A'', \<lparr>item_type = ''interface'', item_extends = None, item_initializer = None,
         item_events = None,
         item_commands = Some [(''m'', Some \<lparr>parameters = Some [(''$mixin'', Str ''M'')],
            returns = None,
            tracing = Some \<lparr>snapshot = True, pausesBeforeInput = False\<rparr>\<rparr>)],
         item_properties = None, item_literals = None\<rparr>),
      (''B'', \<lparr>item_type = ''interface'', item_extends = Some ''A'', item_initializer = None,
         item_events = None, item_commands = None, item_properties = None,
         item_literals = None\<rparr>),
      (''G'', \<lparr>item_type = ''interface'', item_extends = Some ''B'', item_initializer = None,
         item_events = None, item_commands = None, item_properties = None,
         item_literals = None\<rparr>)]"

text \<open>
  A document, in the order in which it is written, with two channels whose names are
  array indices: the channels \<open>B\<close>, \<open>2\<close>, the object \<open>O\<close>, the channel \<open>1\<close>.
\<close>

definition sampleNumbered :: protocol where
  "sampleNumbered =
     [(''B'', \<lparr>item_type = ''interface'', item_extends = None, item_initializer = None,
         item_events = None, item_commands = None, item_properties = None,
         item_literals = None\<rparr>),
      (''2'', \<lparr>item_type = ''interface'', item_extends = None, item_initializer = None,
         item_events = None, item_commands = None, item_properties = None,
         item_literals = None\<rparr>),
      (''O'', \<lparr>item_type = ''object'', item_extends = None, item_initializer = None,
         item_events = None, item_commands = None, item_properties = Some [],
         item_literals = None\<rparr>),
      (''1'', \<lparr>item_type = ''interface'', item_extends = None, item_initializer = None,
         item_events = None, item_commands = None, item_properties = None,
         item_literals = None\<rparr>)]"

text \<open>
  The channel \<open>A\<close> declares the command \<open>foo\<close>, whose parameters are \<open>x\<close> and the
  properties of the mixin \<open>M\<close>; the channel \<open>B\<close> extends \<open>A\<close> and declares nothing.
\<close>

definition sampleInherited :: protocol where
  "sampleInherited =
     [(''M'', \<lparr>item_type = ''mixin'', item_extends = None, item_initializer = None,
         item_events = None, item_commands = None,
         item_properties = Some [(''label'', Str ''string?'')], item_literals = None\<rparr>),
      (''A'', \<lparr>item_type = ''interface'', item_extends = None, item_initializer = None,
         item_events = None,
         item_commands = Some [(''foo'', Some \<lparr>parameters = Some [(''x'', Str ''string''),
              (''$mixin'', Str ''M'')],
            returns = None, tracing = None\<rparr>)],
         item_properties = None, item_literals = None\<rparr>),
      (''B'', \<lparr>item_type = ''interface'', item_extends = Some ''A'', item_initializer = None,
         item_events = None, item_commands = None, item_properties = None,
         item_literals = None\<rparr>)]"

text \<open>
  A registry at run time for \<open>sampleInherited\<close>: the validator of \<open>A.foo\<close> under both names.
\<close>

definition sampleRegistry :: "string \<rightharpoonup> validator" where
  "sampleRegistry =
     [''AFooParams'' \<mapsto> tObject [(''x'', tString), (''label'', tOptional tString)],
      ''BFooParams'' \<mapsto> tObject [(''x'', tString), (''label'', tOptional tString)]]"

text \<open>
  The channel \<open>A\<close> declares the command \<open>m\<close>; the channel \<open>B\<close> extends \<open>A\<close> and declares a
  command \<open>m\<close> of its own, with other parameters.
\<close>

definition sampleOverride :: protocol where
  "sampleOverride =
     [(''A'', \<lparr>item_type = ''interface'', item_extends = None, item_initializer = None,
         item_events = None,
         item_commands = Some [(''m'', Some \<lparr>parameters = Some [(''x'', Str ''string'')],
            returns = None, tracing = None\<rparr>)],
         item_properties = None, item_literals = None\<rparr>),
      (''B'', \<lparr>item_type = ''interface'', item_extends = Some ''A'', item_initializer = None,
         item_events = None,
         item_commands = Some [(''m'', Some \<lparr>parameters = Some [(''y'', Str ''number'')],
            returns = None, tracing = None\<rparr>)],
         item_properties = None, item_literals = None\<rparr>)]"

text \<open>
  The command \<open>foo\<close> declares parameters, all of them optional (the one property of the
  mixin \<open>M\<close>); the command \<open>bar\<close> is \<open>null\<close> in the document and declares none.
\<close>

definition sampleOptional :: protocol where
  "sampleOptional =
     [(''M'', \<lparr>item_type = ''mixin'', item_extends = None, item_initializer = None,
         item_events = None, item_commands = None,
         item_properties = Some [(''label'', Str ''string?'')], item_literals = None\<rparr>),
      (''C'', \<lparr>item_type = ''interface'', item_extends = None, item_initializer = None,
         item_events = None,
         item_commands = Some [(''foo'', Some \<lparr>parameters = Some [(''$mixin'', Str ''M'')],
            returns = None, tracing = None\<rparr>), (''bar'', None)],
         item_properties = None, item_literals = None\<rparr>)]"




section \<open>What the loops do to the arrays\<close>

lemma andThen_ok:
  "(andThen m f = Some (Inr y)) = (\<exists>x. m = Some (Inr x) \<and> f x = Some (Inr y))"
  by (auto simp: andThen_def split: option.splits sum.splits)

lemma push_fields:
  "channels_ts (push l out) = channels_ts out @ [l]"
  "validator_ts (push l out) = validator_ts out"
  "tracingSnapshots (push l out) = tracingSnapshots out"
  "pausesBeforeInputActions (push l out) = pausesBeforeInputActions out"
  by (simp_all add: push_def)

lemma addScheme_fields:
  "channels_ts (addScheme n s out) = channels_ts out"
  "validator_ts (addScheme n s out) = validator_ts out @ schemeLines n s"
  "tracingSnapshots (addScheme n s out) = tracingSnapshots out"
  "pausesBeforeInputActions (addScheme n s out) = pausesBeforeInputActions out"
  by (simp_all add: addScheme_def)

lemma aliasLoop_fields:
  "channels_ts (aliasLoop inh ch title pn out) = channels_ts out"
  "validator_ts (aliasLoop inh ch title pn out) = validator_ts out
     @ concat (map (\<lambda>(key, parent). if parent = ch
         then schemeLines (key @ title @ ''Params'') (lookupByName pn) else []) inh)"
  "tracingSnapshots (aliasLoop inh ch title pn out) = tracingSnapshots out"
  "pausesBeforeInputActions (aliasLoop inh ch title pn out) = pausesBeforeInputActions out"
  by (induction inh ch title pn out rule: aliasLoop.induct) (simp_all add: addScheme_fields)

lemma commandStep_effect:
  assumes "commandStep fuel r d ch (m, method0) (out, tt) = Some (Inr (out', tt'))"
  shows "\<exists>title params.
       titleCase m = Inr title
     \<and> objectType fuel r (orEmpty (parameters (commandOrEmpty method0))) [] False
           = Some (Inr params)
     \<and> (channels_ts out' = channels_ts out
           @ [methodSignature m (commandOrEmpty method0) (ch @ title @ ''Params'') (ch @ title @ ''Result'')])
     \<and> validator_ts out' = validator_ts out
         @ schemeLines (ch @ title @ ''Params'')
             (paramsScheme (commandOrEmpty method0) params)
         @ concat (map (\<lambda>(key, parent). if parent = ch
             then schemeLines (key @ title @ ''Params'') (lookupByName (ch @ title @ ''Params'')) else []) (inherits r))
     \<and> tracingSnapshots out' = tracingSnapshots out
         @ (if flagged snapshot (commandOrEmpty method0)
            then (ch @ ''.'' @ m) # map (\<lambda>x. x @ ''.'' @ m) (derivedOf d ch) else [])
     \<and> pausesBeforeInputActions out' = pausesBeforeInputActions out
         @ (if flagged pausesBeforeInput (commandOrEmpty method0)
            then (ch @ ''.'' @ m) # map (\<lambda>x. x @ ''.'' @ m) (derivedOf d ch) else [])"
  using assms
  by (auto simp: commandStep_def Let_def andThen_ok push_fields addScheme_fields aliasLoop_fields
        record_action_def)

lemma commandLoop_tracing:
  "commandLoop fuel r d ch cmds (out, tt) = Some (Inr (out', tt')) \<Longrightarrow>
     tracingSnapshots out' = tracingSnapshots out
       @ concat (map (\<lambda>(m, method0). if flagged snapshot (commandOrEmpty method0)
            then (ch @ ''.'' @ m) # map (\<lambda>x. x @ ''.'' @ m) (derivedOf d ch) else []) cmds)
   \<and> pausesBeforeInputActions out' = pausesBeforeInputActions out
       @ concat (map (\<lambda>(m, method0). if flagged pausesBeforeInput (commandOrEmpty method0)
            then (ch @ ''.'' @ m) # map (\<lambda>x. x @ ''.'' @ m) (derivedOf d ch) else []) cmds)"
proof (induction cmds arbitrary: out tt)
  case Nil
  then show ?case by simp
next
  case (Cons entry cmds)
  obtain m method0 where entry: "entry = (m, method0)" by (cases entry)
  from Cons.prems obtain out1 tt1 where
    step: "commandStep fuel r d ch (m, method0) (out, tt) = Some (Inr (out1, tt1))"
    and rest: "commandLoop fuel r d ch cmds (out1, tt1) = Some (Inr (out', tt'))"
    by (auto simp: andThen_ok entry)
  from commandStep_effect [OF step] Cons.IH [OF rest] show ?case
    by (auto simp: entry)
qed


lemma sublist_extend: "sublist xs ys \<Longrightarrow> prefix ys zs \<Longrightarrow> sublist xs zs"
  unfolding sublist_def prefix_def by (metis append.assoc)

lemma commandStep_appends:
  assumes "commandStep fuel r d ch entry (out, tt) = Some (Inr (out', tt'))"
  shows "prefix (channels_ts out) (channels_ts out') \<and> prefix (validator_ts out) (validator_ts out')"
proof -
  obtain m method0 where entry: "entry = (m, method0)" by (cases entry)
  from commandStep_effect [OF assms [unfolded entry]] show ?thesis
    by (auto simp: prefix_def)
qed

lemma commandLoop_appends:
  "commandLoop fuel r d ch cmds (out, tt) = Some (Inr (out', tt')) \<Longrightarrow>
     prefix (channels_ts out) (channels_ts out') \<and> prefix (validator_ts out) (validator_ts out')"
proof (induction cmds arbitrary: out tt)
  case Nil
  then show ?case by simp
next
  case (Cons entry cmds)
  from Cons.prems obtain out1 tt1 where
    step: "commandStep fuel r d ch entry (out, tt) = Some (Inr (out1, tt1))"
    and rest: "commandLoop fuel r d ch cmds (out1, tt1) = Some (Inr (out', tt'))"
    by (auto simp: andThen_ok)
  from commandStep_appends [OF step] Cons.IH [OF rest] show ?case
    by (meson prefix_order.trans)
qed

lemma commandLoop_contains:
  "(m, method0) \<in> set cmds \<Longrightarrow>
   commandLoop fuel r d ch cmds (out, tt) = Some (Inr (out', tt')) \<Longrightarrow>
   \<exists>title params.
       titleCase m = Inr title
     \<and> objectType fuel r (orEmpty (parameters (commandOrEmpty method0))) [] False
           = Some (Inr params)
     \<and> (methodSignature m (commandOrEmpty method0) (ch @ title @ ''Params'') (ch @ title @ ''Result''))
          \<in> set (channels_ts out')
     \<and> sublist (schemeLines (ch @ title @ ''Params'')
             (paramsScheme (commandOrEmpty method0) params)
         @ concat (map (\<lambda>(key, parent). if parent = ch
             then schemeLines (key @ title @ ''Params'') (lookupByName (ch @ title @ ''Params'')) else []) (inherits r)))
         (validator_ts out')"
proof (induction cmds arbitrary: out tt)
  case Nil
  then show ?case by simp
next
  case (Cons entry cmds)
  from Cons.prems obtain out1 tt1 where
    step: "commandStep fuel r d ch entry (out, tt) = Some (Inr (out1, tt1))"
    and rest: "commandLoop fuel r d ch cmds (out1, tt1) = Some (Inr (out', tt'))"
    by (auto simp: andThen_ok)
  show ?case
  proof (cases "entry = (m, method0)")
    case True
    from commandStep_effect [OF step [unfolded True]] obtain title params where
      t: "titleCase m = Inr title"
      and p: "objectType fuel r (orEmpty (parameters (commandOrEmpty method0))) [] False
           = Some (Inr params)"
      and c: "channels_ts out1 = channels_ts out
           @ [methodSignature m (commandOrEmpty method0) (ch @ title @ ''Params'') (ch @ title @ ''Result'')]"
      and v: "validator_ts out1 = validator_ts out
         @ schemeLines (ch @ title @ ''Params'')
             (paramsScheme (commandOrEmpty method0) params)
         @ concat (map (\<lambda>(key, parent). if parent = ch
             then schemeLines (key @ title @ ''Params'') (lookupByName (ch @ title @ ''Params'')) else []) (inherits r))"
      by blast
    from commandLoop_appends [OF rest] have
      pc: "prefix (channels_ts out1) (channels_ts out')"
      and pv: "prefix (validator_ts out1) (validator_ts out')" by auto
    have "(methodSignature m (commandOrEmpty method0) (ch @ title @ ''Params'') (ch @ title @ ''Result''))
          \<in> set (channels_ts out')"
      using pc c by (auto simp: prefix_def)
    moreover have "sublist (schemeLines (ch @ title @ ''Params'')
             (paramsScheme (commandOrEmpty method0) params)
         @ concat (map (\<lambda>(key, parent). if parent = ch
             then schemeLines (key @ title @ ''Params'') (lookupByName (ch @ title @ ''Params'')) else []) (inherits r)))
         (validator_ts out1)"
      unfolding v by (metis sublist_append_leftI append.assoc)
    ultimately show ?thesis
      using t p pv sublist_extend by blast
  next
    case False
    with Cons.prems have "(m, method0) \<in> set cmds" by auto
    from Cons.IH [OF this rest] show ?thesis .
  qed
qed


lemma eventStep_fields:
  assumes "eventStep fuel r ch entry (out, tt, et) = Some (Inr (out', tt', et'))"
  shows "prefix (channels_ts out) (channels_ts out') \<and> validator_ts out' = validator_ts out
     \<and> tracingSnapshots out' = tracingSnapshots out
     \<and> pausesBeforeInputActions out' = pausesBeforeInputActions out"
  using assms
  by (cases entry) (auto simp: eventStep_def Let_def andThen_ok push_fields)

lemma eventLoop_fields:
  "eventLoop fuel r ch es (out, tt, et) = Some (Inr (out', tt', et')) \<Longrightarrow>
     prefix (channels_ts out) (channels_ts out') \<and> validator_ts out' = validator_ts out
     \<and> tracingSnapshots out' = tracingSnapshots out
     \<and> pausesBeforeInputActions out' = pausesBeforeInputActions out"
proof (induction es arbitrary: out tt et)
  case Nil
  then show ?case by simp
next
  case (Cons entry es)
  from Cons.prems obtain out1 tt1 et1 where
    step: "eventStep fuel r ch entry (out, tt, et) = Some (Inr (out1, tt1, et1))"
    and rest: "eventLoop fuel r ch es (out1, tt1, et1) = Some (Inr (out', tt', et'))"
    by (auto simp: andThen_ok)
  from eventStep_fields [OF step] Cons.IH [OF rest] show ?case
    by (metis prefix_order.trans)
qed

lemma foldl_push_fields:
  "channels_ts (foldl (\<lambda>out (a, b). push (f a b) out) out xs)
     = channels_ts out @ map (\<lambda>(a, b). f a b) xs"
  "validator_ts (foldl (\<lambda>out (a, b). push (f a b) out) out xs) = validator_ts out"
  "tracingSnapshots (foldl (\<lambda>out (a, b). push (f a b) out) out xs) = tracingSnapshots out"
  "pausesBeforeInputActions (foldl (\<lambda>out (a, b). push (f a b) out) out xs)
     = pausesBeforeInputActions out"
  by (induction xs arbitrary: out) (auto simp: push_fields)

text \<open>What one interface entry does to the four arrays.\<close>

lemma interfaceItem_split:
  assumes "interfaceItem fuel r d ch item out = Some (Inr out')"
  shows "\<exists>out1 out2 tt1 tt2.
       prefix (channels_ts out) (channels_ts out1) \<and> validator_ts out1 = validator_ts out
     \<and> tracingSnapshots out1 = tracingSnapshots out
     \<and> pausesBeforeInputActions out1 = pausesBeforeInputActions out
     \<and> commandLoop fuel r d ch (entriesOf (item_commands item)) (out1, tt1) = Some (Inr (out2, tt2))
     \<and> prefix (channels_ts out2) (channels_ts out') \<and> validator_ts out' = validator_ts out2
     \<and> tracingSnapshots out' = tracingSnapshots out2
     \<and> pausesBeforeInputActions out' = pausesBeforeInputActions out2"
proof -
  from assms obtain init oe tte ete out2 tt2 where
    ev: "eventLoop fuel r ch (entriesOf (item_events item)) (beforeEvents ch init out, [], [])
         = Some (Inr (oe, tte, ete))"
    and cl: "commandLoop fuel r d ch (entriesOf (item_commands item))
           (beforeCommands ch item oe, tte) = Some (Inr (out2, tt2))"
    and fin: "out' = afterCommands ch tt2 ete out2"
    by (auto simp: interfaceItem_def andThen_ok)
  from eventLoop_fields [OF ev] have
    "prefix (channels_ts out) (channels_ts (beforeCommands ch item oe))
     \<and> validator_ts (beforeCommands ch item oe) = validator_ts out
     \<and> tracingSnapshots (beforeCommands ch item oe) = tracingSnapshots out
     \<and> pausesBeforeInputActions (beforeCommands ch item oe) = pausesBeforeInputActions out"
    by (auto simp: push_fields prefix_def beforeEvents_def beforeCommands_def Let_def)
  moreover have "prefix (channels_ts out2) (channels_ts out') \<and> validator_ts out' = validator_ts out2
     \<and> tracingSnapshots out' = tracingSnapshots out2
     \<and> pausesBeforeInputActions out' = pausesBeforeInputActions out2"
    unfolding fin by (simp add: push_fields foldl_push_fields prefix_def afterCommands_def Let_def)
  ultimately show ?thesis using cl by blast
qed


lemma interfaceItem_appends:
  assumes "interfaceItem fuel r d ch item out = Some (Inr out')"
  shows "prefix (channels_ts out) (channels_ts out') \<and> prefix (validator_ts out) (validator_ts out')"
proof -
  from interfaceItem_split [OF assms] obtain out1 out2 tt1 tt2 where
    a: "prefix (channels_ts out) (channels_ts out1)" "validator_ts out1 = validator_ts out"
    and cl: "commandLoop fuel r d ch (entriesOf (item_commands item)) (out1, tt1)
               = Some (Inr (out2, tt2))"
    and b: "prefix (channels_ts out2) (channels_ts out')" "validator_ts out' = validator_ts out2"
    by blast
  from commandLoop_appends [OF cl] a b show ?thesis
    by (metis prefix_order.trans)
qed

lemma interfaceItem_tracing:
  assumes "interfaceItem fuel r d ch item out = Some (Inr out')"
  shows "tracingSnapshots out' = tracingSnapshots out
       @ concat (map (\<lambda>(m, method0). if flagged snapshot (commandOrEmpty method0)
            then (ch @ ''.'' @ m) # map (\<lambda>x. x @ ''.'' @ m) (derivedOf d ch) else [])
           (entriesOf (item_commands item)))
   \<and> pausesBeforeInputActions out' = pausesBeforeInputActions out
       @ concat (map (\<lambda>(m, method0). if flagged pausesBeforeInput (commandOrEmpty method0)
            then (ch @ ''.'' @ m) # map (\<lambda>x. x @ ''.'' @ m) (derivedOf d ch) else [])
           (entriesOf (item_commands item)))"
proof -
  from interfaceItem_split [OF assms] obtain out1 out2 tt1 tt2 where
    a: "tracingSnapshots out1 = tracingSnapshots out"
       "pausesBeforeInputActions out1 = pausesBeforeInputActions out"
    and cl: "commandLoop fuel r d ch (entriesOf (item_commands item)) (out1, tt1)
               = Some (Inr (out2, tt2))"
    and b: "tracingSnapshots out' = tracingSnapshots out2"
       "pausesBeforeInputActions out' = pausesBeforeInputActions out2"
    by blast
  from commandLoop_tracing [OF cl] a b show ?thesis by simp
qed

lemma interfaceItem_contains:
  assumes "interfaceItem fuel r d ch item out = Some (Inr out')"
    and "(m, method0) \<in> set (entriesOf (item_commands item))"
  shows "\<exists>title params.
       titleCase m = Inr title
     \<and> objectType fuel r (orEmpty (parameters (commandOrEmpty method0))) [] False
           = Some (Inr params)
     \<and> (methodSignature m (commandOrEmpty method0) (ch @ title @ ''Params'') (ch @ title @ ''Result''))
          \<in> set (channels_ts out')
     \<and> sublist (schemeLines (ch @ title @ ''Params'')
             (paramsScheme (commandOrEmpty method0) params)
         @ concat (map (\<lambda>(key, parent). if parent = ch
             then schemeLines (key @ title @ ''Params'') (lookupByName (ch @ title @ ''Params'')) else []) (inherits r)))
         (validator_ts out')"
proof -
  from interfaceItem_split [OF assms(1)] obtain out1 out2 tt1 tt2 where
    cl: "commandLoop fuel r d ch (entriesOf (item_commands item)) (out1, tt1)
               = Some (Inr (out2, tt2))"
    and b: "prefix (channels_ts out2) (channels_ts out')" "validator_ts out' = validator_ts out2"
    by blast
  from commandLoop_contains [OF assms(2) cl] obtain title params where
    t: "titleCase m = Inr title"
    and p: "objectType fuel r (orEmpty (parameters (commandOrEmpty method0))) [] False
           = Some (Inr params)"
    and l: "(methodSignature m (commandOrEmpty method0) (ch @ title @ ''Params'') (ch @ title @ ''Result''))
          \<in> set (channels_ts out2)"
    and s: "sublist (schemeLines (ch @ title @ ''Params'')
             (paramsScheme (commandOrEmpty method0) params)
         @ concat (map (\<lambda>(key, parent). if parent = ch
             then schemeLines (key @ title @ ''Params'') (lookupByName (ch @ title @ ''Params'')) else []) (inherits r)))
         (validator_ts out2)"
    by blast
  from l b(1) have l': "(methodSignature m (commandOrEmpty method0) (ch @ title @ ''Params'') (ch @ title @ ''Result''))
          \<in> set (channels_ts out')"
    using set_mono_prefix by blast
  from t p l' s b(2) show ?thesis by auto
qed

lemma otherItem_fields:
  "objectItem fuel r name item out = Some (Inr out') \<Longrightarrow>
     prefix (channels_ts out) (channels_ts out') \<and> prefix (validator_ts out) (validator_ts out')
     \<and> tracingSnapshots out' = tracingSnapshots out
     \<and> pausesBeforeInputActions out' = pausesBeforeInputActions out"
  "enumItem name item out = Some (Inr out') \<Longrightarrow>
     prefix (channels_ts out) (channels_ts out') \<and> prefix (validator_ts out) (validator_ts out')
     \<and> tracingSnapshots out' = tracingSnapshots out
     \<and> pausesBeforeInputActions out' = pausesBeforeInputActions out"
  by (auto simp: objectItem_def enumItem_def andThen_ok push_fields addScheme_fields prefix_def
        split: option.splits)

lemma mainLoop_appends:
  "mainLoop fuel r d protocol out = Some (Inr out') \<Longrightarrow>
     prefix (channels_ts out) (channels_ts out') \<and> prefix (validator_ts out) (validator_ts out')"
proof (induction protocol arbitrary: out)
  case Nil
  then show ?case by simp
next
  case (Cons entry protocol)
  obtain name item where entry: "entry = (name, item)" by (cases entry)
  from Cons.prems obtain out1 where
    step: "(if item_type item = ''interface'' then interfaceItem fuel r d name item out
              else if item_type item = ''object'' then objectItem fuel r name item out
              else if item_type item = ''enum'' then enumItem name item out
              else Some (Inr out)) = Some (Inr out1)"
    and rest: "mainLoop fuel r d protocol out1 = Some (Inr out')"
    by (auto simp: andThen_ok entry)
  from step have "prefix (channels_ts out) (channels_ts out1)
      \<and> prefix (validator_ts out) (validator_ts out1)"
    using interfaceItem_appends otherItem_fields by (auto split: if_splits)
  with Cons.IH [OF rest] show ?case
    by (metis prefix_order.trans)
qed

lemma mainLoop_tracing:
  "mainLoop fuel r d protocol out = Some (Inr out') \<Longrightarrow>
     tracingSnapshots out' = tracingSnapshots out
       @ concat (map (\<lambda>(name, item). if item_type item = ''interface'' then
           concat (map (\<lambda>(m, method0). if flagged snapshot (commandOrEmpty method0)
              then (name @ ''.'' @ m) # map (\<lambda>x. x @ ''.'' @ m) (derivedOf d name) else [])
             (entriesOf (item_commands item))) else []) protocol)
   \<and> pausesBeforeInputActions out' = pausesBeforeInputActions out
       @ concat (map (\<lambda>(name, item). if item_type item = ''interface'' then
           concat (map (\<lambda>(m, method0). if flagged pausesBeforeInput (commandOrEmpty method0)
              then (name @ ''.'' @ m) # map (\<lambda>x. x @ ''.'' @ m) (derivedOf d name) else [])
             (entriesOf (item_commands item))) else []) protocol)"
proof (induction protocol arbitrary: out)
  case Nil
  then show ?case by simp
next
  case (Cons entry protocol)
  obtain name item where entry: "entry = (name, item)" by (cases entry)
  from Cons.prems obtain out1 where
    step: "(if item_type item = ''interface'' then interfaceItem fuel r d name item out
              else if item_type item = ''object'' then objectItem fuel r name item out
              else if item_type item = ''enum'' then enumItem name item out
              else Some (Inr out)) = Some (Inr out1)"
    and rest: "mainLoop fuel r d protocol out1 = Some (Inr out')"
    by (auto simp: andThen_ok entry)
  show ?case
  proof (cases "item_type item = ''interface''")
    case True
    with step have "interfaceItem fuel r d name item out = Some (Inr out1)" by simp
    from interfaceItem_tracing [OF this] Cons.IH [OF rest] True show ?thesis
      by (simp add: entry)
  next
    case False
    with step have "tracingSnapshots out1 = tracingSnapshots out
        \<and> pausesBeforeInputActions out1 = pausesBeforeInputActions out"
      using otherItem_fields by (auto split: if_splits)
    with Cons.IH [OF rest] False show ?thesis
      by (simp add: entry)
  qed
qed

lemma mainLoop_contains:
  "mainLoop fuel r d protocol out = Some (Inr out') \<Longrightarrow>
   (ch, item) \<in> set protocol \<Longrightarrow> item_type item = ''interface'' \<Longrightarrow>
   (m, method0) \<in> set (entriesOf (item_commands item)) \<Longrightarrow>
   \<exists>title params.
       titleCase m = Inr title
     \<and> objectType fuel r (orEmpty (parameters (commandOrEmpty method0))) [] False
           = Some (Inr params)
     \<and> (methodSignature m (commandOrEmpty method0) (ch @ title @ ''Params'') (ch @ title @ ''Result''))
          \<in> set (channels_ts out')
     \<and> sublist (schemeLines (ch @ title @ ''Params'')
             (paramsScheme (commandOrEmpty method0) params)
         @ concat (map (\<lambda>(key, parent). if parent = ch
             then schemeLines (key @ title @ ''Params'') (lookupByName (ch @ title @ ''Params'')) else []) (inherits r)))
         (validator_ts out')"
proof (induction protocol arbitrary: out)
  case Nil
  then show ?case by simp
next
  case (Cons entry protocol)
  obtain name item' where entry: "entry = (name, item')" by (cases entry)
  from Cons.prems(1) obtain out1 where
    step: "(if item_type item' = ''interface'' then interfaceItem fuel r d name item' out
              else if item_type item' = ''object'' then objectItem fuel r name item' out
              else if item_type item' = ''enum'' then enumItem name item' out
              else Some (Inr out)) = Some (Inr out1)"
    and rest: "mainLoop fuel r d protocol out1 = Some (Inr out')"
    by (auto simp: andThen_ok entry)
  show ?case
  proof (cases "entry = (ch, item)")
    case True
    with step entry Cons.prems(3) have "interfaceItem fuel r d ch item out = Some (Inr out1)"
      by simp
    from interfaceItem_contains [OF this Cons.prems(4)] obtain title params where
      t: "titleCase m = Inr title"
      and p: "objectType fuel r (orEmpty (parameters (commandOrEmpty method0))) [] False
           = Some (Inr params)"
      and l: "(methodSignature m (commandOrEmpty method0) (ch @ title @ ''Params'') (ch @ title @ ''Result''))
          \<in> set (channels_ts out1)"
      and s: "sublist (schemeLines (ch @ title @ ''Params'')
             (paramsScheme (commandOrEmpty method0) params)
         @ concat (map (\<lambda>(key, parent). if parent = ch
             then schemeLines (key @ title @ ''Params'') (lookupByName (ch @ title @ ''Params'')) else []) (inherits r)))
         (validator_ts out1)"
      by blast
    from mainLoop_appends [OF rest] have
      pc: "prefix (channels_ts out1) (channels_ts out')"
      and pv: "prefix (validator_ts out1) (validator_ts out')" by auto
    from l pc have l': "(methodSignature m (commandOrEmpty method0) (ch @ title @ ''Params'') (ch @ title @ ''Result''))
          \<in> set (channels_ts out')"
      using set_mono_prefix by blast
    from sublist_extend [OF s pv] t p l' show ?thesis by blast
  next
    case False
    with Cons.prems(2) have "(ch, item) \<in> set protocol" by auto
    from Cons.IH [OF rest this Cons.prems(3) Cons.prems(4)] show ?thesis .
  qed
qed

section \<open>The arrays at the end of the generation\<close>

lemma traitLoop_fields:
  "channels_ts (traitLoop trait ps out) = channels_ts out
     @ map (\<lambda>name. ''    T extends '' @ name @ ''Channel ? '' @ name @ trait @ '' :'')
         (map fst (filter (\<lambda>(name, item). item_type item = ''interface'') ps))"
  "validator_ts (traitLoop trait ps out) = validator_ts out"
  "tracingSnapshots (traitLoop trait ps out) = tracingSnapshots out"
  "pausesBeforeInputActions (traitLoop trait ps out) = pausesBeforeInputActions out"
  by (induction trait ps out rule: traitLoop.induct) (simp_all add: push_fields)

lemma traits_fields:
  "channels_ts (traits protocol out) = channels_ts out
     @ [''// ----------- Initializer Traits -----------'', ''export type InitializerTraits<T> ='']
     @ map (\<lambda>name. ''    T extends '' @ name @ ''Channel ? '' @ name @ ''Initializer :'')
         (rev (map fst (filter (\<lambda>(name, item). item_type item = ''interface'') protocol)))
     @ [''    object;'', [], ''// ----------- Event Traits -----------'',
        ''export type EventsTraits<T> ='']
     @ map (\<lambda>name. ''    T extends '' @ name @ ''Channel ? '' @ name @ ''Events :'')
         (rev (map fst (filter (\<lambda>(name, item). item_type item = ''interface'') protocol)))
     @ [''    undefined;'', [], ''// ----------- EventTarget Traits -----------'',
        ''export type EventTargetTraits<T> ='']
     @ map (\<lambda>name. ''    T extends '' @ name @ ''Channel ? '' @ name @ ''EventTarget :'')
         (rev (map fst (filter (\<lambda>(name, item). item_type item = ''interface'') protocol)))
     @ [''    undefined;'', []]"
  "validator_ts (traits protocol out) = validator_ts out"
  "tracingSnapshots (traits protocol out) = tracingSnapshots out"
  "pausesBeforeInputActions (traits protocol out) = pausesBeforeInputActions out"
  by (simp_all add: traits_def Let_def push_fields traitLoop_fields rev_map rev_filter)

lemma generate_mainLoop:
  assumes "generate fuel protocol = Some (Inr out)"
  shows "\<exists>out1. mainLoop fuel (registriesOf protocol) (derivedClasses protocol) protocol
            (traits protocol \<lparr>channels_ts = [channels_ts_head], validator_ts = [validator_ts_head],
                 tracingSnapshots = [], pausesBeforeInputActions = []\<rparr>) = Some (Inr out1)
     \<and> prefix (channels_ts out1) (channels_ts out) \<and> prefix (validator_ts out1) (validator_ts out)
     \<and> tracingSnapshots out = tracingSnapshots out1
     \<and> pausesBeforeInputActions out = pausesBeforeInputActions out1"
  using assms
  by (auto simp: generate_def Let_def andThen_ok push_fields prefix_def)

section \<open>The two collections of flagged commands\<close>

lemma derivedOf_upd: "derivedOf (d(p \<mapsto> xs)) n = (if n = p then xs else derivedOf d n)"
  by (simp add: derivedOf_def)

lemma derive_closed:
  "derivedOf (derive ps d) name = derivedOf d name
     @ map fst (filter (\<lambda>(child, item). item_type item = ''interface''
                          \<and> extendsOf item = Some name) ps)"
proof (induction ps arbitrary: d)
  case Nil
  then show ?case by simp
next
  case (Cons entry ps)
  obtain child item where entry: "entry = (child, item)" by (cases entry)
  show ?case
  proof (cases "item_type item = ''interface''")
    case False
    then show ?thesis by (simp add: entry Cons.IH)
  next
    case True
    show ?thesis
    proof (cases "extendsOf item")
      case None
      with True show ?thesis by (simp add: entry Cons.IH)
    next
      case (Some parent)
      with True show ?thesis by (simp add: entry Cons.IH) (simp add: derivedOf_def)
    qed
  qed
qed

lemma derivedClasses_closed:
  "derivedOf (derivedClasses protocol) name
     = map fst (filter (\<lambda>(child, item). item_type item = ''interface''
                          \<and> extendsOf item = Some name) protocol)"
  by (simp add: derivedClasses_def derive_closed) (simp add: derivedOf_def)

lemma children_iff:
  "D \<in> set (derivedOf (derivedClasses protocol) name)
   \<longleftrightarrow> (\<exists>child. (D, child) \<in> set protocol \<and> item_type child = ''interface''
                      \<and> extendsOf child = Some name)"
  unfolding derivedClasses_closed by (induction protocol) auto

lemma recorded_commands_iff:
  "z \<in> set (concat (map (\<lambda>(m, method0). if Q method0 then g m else []) cmds))
   \<longleftrightarrow> (\<exists>m method. (m, method) \<in> set cmds \<and> Q method \<and> z \<in> set (g m))"
  by (induction cmds) auto

lemma recorded_iff:
  "z \<in> set (concat (map (\<lambda>(name, item). if P item then
           concat (map (\<lambda>(m, method0). if Q method0 then g name m else []) (cmds item))
           else []) protocol))
      \<longleftrightarrow> (\<exists>C item. (C, item) \<in> set protocol \<and> P item
             \<and> (\<exists>m method. (m, method) \<in> set (cmds item) \<and> Q method \<and> z \<in> set (g C m)))"
  by (induction protocol) (auto simp: recorded_commands_iff)

lemma label_iff:
  "z \<in> set ((C @ ''.'' @ m) # map (\<lambda>x. x @ ''.'' @ m) ch)
   \<longleftrightarrow> z = C @ ''.'' @ m \<or> (\<exists>D \<in> set ch. z = D @ ''.'' @ m)"
  by auto


lemma generate_tracing:
  assumes "generate fuel protocol = Some (Inr out)"
  shows "tracingSnapshots out
       = concat (map (\<lambda>(name, item). if item_type item = ''interface'' then
           concat (map (\<lambda>(m, method0). if flagged snapshot (commandOrEmpty method0)
              then (name @ ''.'' @ m) # map (\<lambda>x. x @ ''.'' @ m)
                     (derivedOf (derivedClasses protocol) name) else [])
             (entriesOf (item_commands item))) else []) protocol)"
    and "pausesBeforeInputActions out
       = concat (map (\<lambda>(name, item). if item_type item = ''interface'' then
           concat (map (\<lambda>(m, method0). if flagged pausesBeforeInput (commandOrEmpty method0)
              then (name @ ''.'' @ m) # map (\<lambda>x. x @ ''.'' @ m)
                     (derivedOf (derivedClasses protocol) name) else [])
             (entriesOf (item_commands item))) else []) protocol)"
proof -
  from generate_mainLoop [OF assms] obtain out1 where
    ml: "mainLoop fuel (registriesOf protocol) (derivedClasses protocol) protocol
            (traits protocol \<lparr>channels_ts = [channels_ts_head], validator_ts = [validator_ts_head],
                 tracingSnapshots = [], pausesBeforeInputActions = []\<rparr>) = Some (Inr out1)"
    and t: "tracingSnapshots out = tracingSnapshots out1"
       "pausesBeforeInputActions out = pausesBeforeInputActions out1"
    by blast
  from mainLoop_tracing [OF ml] t show
    "tracingSnapshots out
       = concat (map (\<lambda>(name, item). if item_type item = ''interface'' then
           concat (map (\<lambda>(m, method0). if flagged snapshot (commandOrEmpty method0)
              then (name @ ''.'' @ m) # map (\<lambda>x. x @ ''.'' @ m)
                     (derivedOf (derivedClasses protocol) name) else [])
             (entriesOf (item_commands item))) else []) protocol)"
    by (simp add: traits_fields)
  from mainLoop_tracing [OF ml] t show
    "pausesBeforeInputActions out
       = concat (map (\<lambda>(name, item). if item_type item = ''interface'' then
           concat (map (\<lambda>(m, method0). if flagged pausesBeforeInput (commandOrEmpty method0)
              then (name @ ''.'' @ m) # map (\<lambda>x. x @ ''.'' @ m)
                     (derivedOf (derivedClasses protocol) name) else [])
             (entriesOf (item_commands item))) else []) protocol)"
    by (simp add: traits_fields)
qed

section \<open>The entries of the validator registry\<close>

lemma generate_contains:
  assumes "generate fuel protocol = Some (Inr out)"
    and "(ch, item) \<in> set protocol" "item_type item = ''interface''"
    and "(m, method0) \<in> set (entriesOf (item_commands item))"
  shows "\<exists>title params.
       titleCase m = Inr title
     \<and> objectType fuel (registriesOf protocol) (orEmpty (parameters (commandOrEmpty method0)))
           [] False = Some (Inr params)
     \<and> (methodSignature m (commandOrEmpty method0) (ch @ title @ ''Params'') (ch @ title @ ''Result''))
          \<in> set (channels_ts out)
     \<and> sublist (schemeLines (ch @ title @ ''Params'')
             (paramsScheme (commandOrEmpty method0) params)
         @ concat (map (\<lambda>(key, parent). if parent = ch
             then schemeLines (key @ title @ ''Params'') (lookupByName (ch @ title @ ''Params'')) else [])
             (inherits (registriesOf protocol))))
         (validator_ts out)"
proof -
  from generate_mainLoop [OF assms(1)] obtain out1 where
    ml: "mainLoop fuel (registriesOf protocol) (derivedClasses protocol) protocol
            (traits protocol \<lparr>channels_ts = [channels_ts_head], validator_ts = [validator_ts_head],
                 tracingSnapshots = [], pausesBeforeInputActions = []\<rparr>) = Some (Inr out1)"
    and pc: "prefix (channels_ts out1) (channels_ts out)"
    and pv: "prefix (validator_ts out1) (validator_ts out)"
    by blast
  from mainLoop_contains [OF ml assms(2) assms(3) assms(4)] obtain title params where
    t: "titleCase m = Inr title"
    and p: "objectType fuel (registriesOf protocol)
              (orEmpty (parameters (commandOrEmpty method0))) [] False = Some (Inr params)"
    and l: "(methodSignature m (commandOrEmpty method0) (ch @ title @ ''Params'') (ch @ title @ ''Result''))
          \<in> set (channels_ts out1)"
    and s: "sublist (schemeLines (ch @ title @ ''Params'')
             (paramsScheme (commandOrEmpty method0) params)
         @ concat (map (\<lambda>(key, parent). if parent = ch
             then schemeLines (key @ title @ ''Params'') (lookupByName (ch @ title @ ''Params'')) else [])
             (inherits (registriesOf protocol))))
         (validator_ts out1)"
    by blast
  from l pc have l': "(methodSignature m (commandOrEmpty method0) (ch @ title @ ''Params'') (ch @ title @ ''Result''))
          \<in> set (channels_ts out)"
    using set_mono_prefix by blast
  from sublist_extend [OF s pv] t p l' show ?thesis by blast
qed

text \<open>The map \<open>inherits\<close> after the first loop.\<close>

lemma collect_inherits_other:
  "B \<notin> fst ` set ps \<Longrightarrow> map_of (inherits (collect ps r)) B = map_of (inherits r) B"
proof (induction ps arbitrary: r)
  case Nil
  then show ?case by simp
next
  case (Cons entry ps)
  obtain name val where entry: "entry = (name, val)" by (cases entry)
  from Cons.prems have ne: "name \<noteq> B" and rest: "B \<notin> fst ` set ps" by (auto simp: entry)
  show ?case
    unfolding entry collect.simps Let_def
    by (subst Cons.IH [OF rest]) (use ne in \<open>auto simp: update_conv' split: option.splits\<close>)
qed

lemma collect_inherits:
  "distinct (map fst ps) \<Longrightarrow> (B, child) \<in> set ps \<Longrightarrow> item_type child = ''interface'' \<Longrightarrow>
   extendsOf child = Some A \<Longrightarrow> map_of (inherits (collect ps r)) B = Some A"
proof (induction ps arbitrary: r)
  case Nil
  then show ?case by simp
next
  case (Cons entry ps)
  obtain name val where entry: "entry = (name, val)" by (cases entry)
  show ?case
  proof (cases "entry = (B, child)")
    case True
    with Cons.prems(1) have "B \<notin> fst ` set ps" by auto
    from collect_inherits_other [OF this] True Cons.prems(3,4) show ?thesis
      by (simp add: update_conv')
  next
    case False
    with Cons.prems have "distinct (map fst ps)" "(B, child) \<in> set ps" by auto
    from Cons.IH [OF this Cons.prems(3,4)] show ?thesis
      by (simp add: entry Let_def)
  qed
qed

lemma inherits_registered:
  assumes "distinct (map fst protocol)" "(B, child) \<in> set protocol"
    "item_type child = ''interface''" "extendsOf child = Some A"
  shows "(B, A) \<in> set (inherits (registriesOf protocol))"
  using collect_inherits [OF assms] by (simp add: registriesOf_def map_of_SomeD)

section \<open>Sample runs of the resolver and of the generation\<close>

lemma objectType_scheme_prefix:
  "objectType fuel r props indent oo = Some (Inr e) \<Longrightarrow> startsWith (scheme e) ''tObject(''"
  by (auto simp: objectType_def tsLine_def schemeLine_def andThen_ok startsWith_def split: option.splits if_splits)

lemma inlineType_token_returns:
  "\<exists>res. inlineType fuel r (Str token) indent wrapEnums = Some (Inr res)"
  by (auto simp: Let_def titleCase_def)

lemma generate_unknown_reference:
  "generate 0 [(''O'', \<lparr>item_type = ''object'', item_extends = None, item_initializer = None,
       item_events = None, item_commands = None,
       item_properties = Some [(''x'', Str ''Missing'')], item_literals = None\<rparr>)]
   = Some (Inr \<lparr>channels_ts = channels_ts (traits [] \<lparr>channels_ts = [channels_ts_head],
                     validator_ts = [], tracingSnapshots = [], pausesBeforeInputActions = []\<rparr>)
                  @ [''export type O = {\<newline>  x: Missing,\<newline>};'', [],
                     setLiteral ''commandsWithTracingSnapshots'' [], [],
                     setLiteral ''pausesBeforeInputActions'' []],
                validator_ts = [validator_ts_head, ''  scheme.O = tObject({'',
                     ''    x: tType('Missing'),'', ''  });'',
                     ''\<newline>  return scheme;\<newline>}\<newline>''],
                tracingSnapshots = [], pausesBeforeInputActions = []\<rparr>)"
  by (simp add: generate_def Let_def andThen_def objectItem_def objectType_def tsLine_def schemeLine_def
        startsWith_def endsWith_def registriesOf_def traits_def push_def addScheme_def
        schemeLines_def quoted_def)

lemma generate_unknown_mixin:
  "generate 0 [(''O'', \<lparr>item_type = ''object'', item_extends = None, item_initializer = None,
       item_events = None, item_commands = None,
       item_properties = Some [(''$mixin'', Str ''Missing'')], item_literals = None\<rparr>)]
   = Some (Inl TypeError)"
  by (simp add: generate_def Let_def andThen_def objectItem_def objectType_def tsLine_def schemeLine_def
        startsWith_def registriesOf_def)

section \<open>The resolver: unfolding equations and fuel\<close>


lemma inlineType_Str: "inlineType fuel r (Str type0) indent w = inlineType 0 r (Str type0) indent w"
  by (simp only: inlineType.simps)

lemma inlineType_array:
  "startsWith tag ''array'' \<Longrightarrow>
   inlineType fuel r (Node tag items literals props) indent w =
     (case items of
        None \<Rightarrow> Some (Inl TypeError)
      | Some elem \<Rightarrow>
          andThen (inlineType fuel r elem indent True) (\<lambda>inner.
            Some (Inr \<lparr>ts = ts inner @ ''[]'', scheme = ''tArray('' @ scheme inner @ '')'',
                       optional = endsWith tag ''?''\<rparr>)))"
  by (auto simp: andThen_def split: option.splits sum.splits)

lemma inlineType_object:
  "\<not> startsWith tag ''array'' \<Longrightarrow> \<not> startsWith tag ''enum'' \<Longrightarrow> startsWith tag ''object'' \<Longrightarrow>
   inlineType fuel r (Node tag items literals props) indent w =
     andThen (properties fuel r props (indent @ ''  '') False) (\<lambda>inner.
       Some (Inr \<lparr>ts = ''{\<newline>'' @ ts inner @ ''\<newline>'' @ indent @ ''}'',
                  scheme = ''tObject({\<newline>'' @ scheme inner @ ''\<newline>'' @ indent @ ''})'',
                  optional = endsWith tag ''?''\<rparr>))"
  by (simp add: andThen_def split: option.splits sum.splits del: properties.simps)


lemma properties_eq:
  "properties fuel r props indent oo =
     andThen (visitProperties fuel r indent oo props ([], [])) (\<lambda>lines.
       Some (Inr \<lparr>ts = join ''\<newline>'' (fst lines), scheme = join ''\<newline>'' (snd lines)\<rparr>))"
  by (simp add: andThen_def split: option.splits sum.splits prod.splits)

lemma visitEntries_splice:
  "startsWith name ''$mixin'' \<Longrightarrow>
   visitEntries fuel r indent oo ((name, val) # rest) acc =
     (case val of
        Node _ _ _ _ \<Rightarrow> Some (Inl TypeError)
      | Str v \<Rightarrow>
          (case mixins r v of
             None \<Rightarrow> Some (Inl TypeError)
           | Some m \<Rightarrow>
               (case fuel of
                  0 \<Rightarrow> None
                | Suc n \<Rightarrow>
                    andThen (visitProperties n r indent oo (item_properties m) acc)
                      (visitEntries fuel r indent oo rest))))"
  by (simp add: andThen_def split: type_expr.splits option.splits nat.splits sum.splits)

lemma visitEntries_property:
  "\<not> startsWith name ''$mixin'' \<Longrightarrow>
   visitEntries fuel r indent oo ((name, val) # rest) acc =
     andThen (inlineType fuel r val indent False) (\<lambda>inner.
       visitEntries fuel r indent oo rest
         (if oo \<and> \<not> optional inner then acc
          else (fst acc @ [tsLine indent name inner], snd acc @ [schemeLine indent name inner])))"
  by (simp add: andThen_def split: option.splits sum.splits)










section \<open>Well-formed documents: the generation returns\<close>

text \<open>
  With fuel for the depth of the splices, the resolver returns a result on every well-formed
  type expression and property list, whatever the indentation and the flags.
\<close>

lemma andThen_returns:
  "\<exists>v. m = Some (Inr v) \<Longrightarrow> (\<And>v. m = Some (Inr v) \<Longrightarrow> \<exists>w. f v = Some (Inr w)) \<Longrightarrow>
   \<exists>w. andThen m f = Some (Inr w)"
  by (auto simp: andThen_def)

lemma resolver_returns:
  "\<forall>v m ps. mixins r v = Some m \<longrightarrow> item_properties m = Some ps \<longrightarrow>
       wellFormedEntries (mixins r) rank (rank v) ps \<Longrightarrow>
   wellFormedType (mixins r) rank n t \<Longrightarrow> n \<le> fuel \<Longrightarrow>
     \<exists>x. inlineType fuel r t indent w = Some (Inr x)"
  "\<forall>v m ps. mixins r v = Some m \<longrightarrow> item_properties m = Some ps \<longrightarrow>
       wellFormedEntries (mixins r) rank (rank v) ps \<Longrightarrow>
   wellFormedProps (mixins r) rank n props \<Longrightarrow> n \<le> fuel \<Longrightarrow>
     \<exists>y. properties fuel r props indent oo = Some (Inr y)"
  "\<forall>v m ps. mixins r v = Some m \<longrightarrow> item_properties m = Some ps \<longrightarrow>
       wellFormedEntries (mixins r) rank (rank v) ps \<Longrightarrow>
   wellFormedProps (mixins r) rank n props \<Longrightarrow> n \<le> fuel \<Longrightarrow>
     \<exists>z. visitProperties fuel r indent oo props acc = Some (Inr z)"
  "\<forall>v m ps. mixins r v = Some m \<longrightarrow> item_properties m = Some ps \<longrightarrow>
       wellFormedEntries (mixins r) rank (rank v) ps \<Longrightarrow>
   wellFormedEntries (mixins r) rank n ps \<Longrightarrow> n \<le> fuel \<Longrightarrow>
     \<exists>z. visitEntries fuel r indent oo ps acc = Some (Inr z)"
proof (induction fuel r t indent w and fuel r props indent oo and fuel r indent oo props acc
         and fuel r indent oo ps acc
       arbitrary: n and n and n and n
       rule: inlineType_properties_visitProperties_visitEntries.induct)
  case (1 fuel r type0 indent wrapEnums)
  show ?case by (rule inlineType_token_returns)
next
  case (2 fuel r tag items literals props indent wrapEnums)
  show ?case
  proof (cases "startsWith tag ''array''")
    case True
    with "2.prems"(2) obtain elem where items: "items = Some elem"
      and wf: "wellFormedType (mixins r) rank n elem"
      by (cases items) auto
    show ?thesis
      unfolding inlineType_array [OF True] items option.case
      by (rule andThen_returns [OF "2.IH"(1) [OF True items "2.prems"(1) wf "2.prems"(3)]]) (rule exI, rule refl)
  next
    case False
    note na = this
    show ?thesis
    proof (cases "startsWith tag ''enum''")
      case True
      with na "2.prems"(2) obtain ls where "literals = Some ls" by auto
      with na True show ?thesis by (simp add: Let_def del: properties.simps)
    next
      case False
      note ne = this
      from na ne "2.prems"(2) have ob: "startsWith tag ''object''"
        and wf: "wellFormedProps (mixins r) rank n props"
        by (auto simp: wellFormedProps_def split: if_splits)
      show ?thesis
        unfolding inlineType_object [OF na ne ob]
        by (rule andThen_returns [OF "2.IH"(2) [OF na ne ob "2.prems"(1) wf "2.prems"(3)]]) (rule exI, rule refl)
    qed
  qed
next
  case (3 fuel r props indent onlyOptional)
  show ?case
    unfolding properties_eq
    by (rule andThen_returns [OF "3.IH" [OF "3.prems"]]) (rule exI, rule refl)
next
  case (4 fuel r indent onlyOptional acc)
  then show ?case by (simp add: wellFormedProps_def)
next
  case (5 fuel r indent onlyOptional ps acc)
  from "5.prems"(2) have "wellFormedEntries (mixins r) rank n ps"
    by (simp add: wellFormedProps_def)
  from "5.IH" [OF "5.prems"(1) this "5.prems"(3)] show ?case
    by (simp only: visitProperties.simps)
next
  case (6 fuel r indent onlyOptional acc)
  show ?case by (simp only: visitEntries.simps) blast
next
  case (7 fuel r indent onlyOptional name val rest acc)
  from "7.prems"(2) have rest: "wellFormedEntries (mixins r) rank n rest" by simp
  show ?case
  proof (cases "startsWith name ''$mixin''")
    case True
    note mx = this
    from "7.prems"(2) mx obtain v m ps' where val: "val = Str v" and m: "mixins r v = Some m"
      and ps': "item_properties m = Some ps'" and rk: "rank v < n"
      by (auto split: type_expr.splits option.splits)
    from rk "7.prems"(3) obtain k where fuel: "fuel = Suc k" and k: "rank v \<le> k"
      by (cases fuel) auto
    have wf: "wellFormedProps (mixins r) rank (rank v) (item_properties m)"
      unfolding ps' wellFormedProps_def option.case
      by (rule "7.prems"(1) [rule_format, OF m ps'])
    have "\<exists>z. andThen (visitProperties k r indent onlyOptional (item_properties m) acc)
                      (visitEntries fuel r indent onlyOptional rest) = Some (Inr z)"
    proof (rule andThen_returns)
      show "\<exists>z. visitProperties k r indent onlyOptional (item_properties m) acc = Some (Inr z)"
        by (rule "7.IH"(1) [OF mx val m fuel "7.prems"(1) wf k])
    next
      fix z assume "visitProperties k r indent onlyOptional (item_properties m) acc = Some (Inr z)"
      from "7.IH"(2) [OF mx val m fuel this refl "7.prems"(1) rest "7.prems"(3)]
      show "\<exists>w. visitEntries fuel r indent onlyOptional rest z = Some (Inr w)" .
    qed
    then show ?thesis
      by (simp only: visitEntries_splice [OF mx] val m fuel type_expr.case option.case nat.case)
  next
    case False
    note nm = this
    from "7.prems"(2) nm have wf: "wellFormedType (mixins r) rank n val" by simp
    show ?thesis
      unfolding visitEntries_property [OF nm]
    proof (rule andThen_returns)
      show "\<exists>x. inlineType fuel r val indent False = Some (Inr x)"
        by (rule "7.IH"(3) [OF nm "7.prems"(1) wf "7.prems"(3)])
    next
      fix inner assume i: "inlineType fuel r val indent False = Some (Inr inner)"
      show "\<exists>w. visitEntries fuel r indent onlyOptional rest
         (if onlyOptional \<and> \<not> optional inner then acc
          else (fst acc @ [tsLine indent name inner], snd acc @ [schemeLine indent name inner]))
         = Some (Inr w)"
      proof (cases "onlyOptional \<and> \<not> optional inner")
        case True
        from "7.IH"(4) [OF nm i refl True "7.prems"(1) rest "7.prems"(3)] show ?thesis
          by (simp only: if_P [OF True])
      next
        case False
        from "7.IH"(5) [OF nm i refl False "7.prems"(1) rest "7.prems"(3)] show ?thesis
          by (simp only: if_not_P [OF False])
      qed
    qed
  qed
qed

text \<open>
  The map \<open>mixins\<close> after the first loop holds entries of the document only, so the
  property list of every registered mixin is well formed at the rank of its name.
\<close>

lemma collect_mixins:
  "mixins (collect ps r) v = Some m \<Longrightarrow>
     mixins r v = Some m \<or> ((v, m) \<in> set ps \<and> item_type m = ''mixin'')"
proof (induction ps arbitrary: r)
  case Nil
  then show ?case by simp
next
  case (Cons entry ps)
  obtain name val where entry: "entry = (name, val)" by (cases entry)
  from Cons.IH [OF Cons.prems [unfolded entry collect.simps Let_def]] show ?case
    by (auto simp: entry split: if_splits option.splits)
qed

lemma wellFormed_mixins:
  assumes "wellFormed rank n protocol"
  shows "\<forall>v m ps. mixins (registriesOf protocol) v = Some m \<longrightarrow> item_properties m = Some ps \<longrightarrow>
       wellFormedEntries (mixins (registriesOf protocol)) rank (rank v) ps"
proof (intro allI impI)
  fix v m ps
  assume m: "mixins (registriesOf protocol) v = Some m" and ps: "item_properties m = Some ps"
  from collect_mixins [OF m [unfolded registriesOf_def]]
  have mem: "(v, m) \<in> set protocol" and ty: "item_type m = ''mixin''" by simp_all
  from assms mem have "wellFormedItem (mixins (registriesOf protocol)) rank n (v, m)"
    by (simp add: wellFormed_def list_all_iff)
  with ty ps show "wellFormedEntries (mixins (registriesOf protocol)) rank (rank v) ps"
    by (simp add: wellFormedItem_def)
qed

lemma objectType_returns:
  assumes "\<forall>v m ps. mixins r v = Some m \<longrightarrow> item_properties m = Some ps \<longrightarrow>
       wellFormedEntries (mixins r) rank (rank v) ps"
    and "wellFormedProps (mixins r) rank n props" "n \<le> fuel"
  shows "\<exists>e. objectType fuel r props indent oo = Some (Inr e)"
proof -
  from assms(2) obtain ps where props: "props = Some ps"
    by (cases props) (auto simp: wellFormedProps_def)
  show ?thesis
  proof (cases "length ps = 0")
    case True
    then show ?thesis by (simp add: objectType_def props)
  next
    case False
    from resolver_returns(2) [OF assms] obtain y where
      "properties fuel r props (indent @ ''  '') oo = Some (Inr y)" by blast
    with False show ?thesis
      by (simp add: objectType_def props andThen_def del: properties.simps)
  qed
qed

lemma titleCase_returns: "name \<noteq> [] \<Longrightarrow> \<exists>title. titleCase name = Inr title"
  by (cases name) (simp_all add: titleCase_def)

lemma eventStep_returns:
  assumes "\<forall>v m ps. mixins r v = Some m \<longrightarrow> item_properties m = Some ps \<longrightarrow>
       wellFormedEntries (mixins r) rank (rank v) ps"
    and "wellFormedEvent (mixins r) rank n entry" "n \<le> fuel"
  shows "\<exists>st'. eventStep fuel r ch entry st = Some (Inr st')"
proof -
  obtain eventName event0 where entry: "entry = (eventName, event0)" by (cases entry)
  obtain out tt et where st: "st = (out, tt, et)" by (cases st)
  from assms(2) have ne: "eventName \<noteq> []"
    and wf: "wellFormedProps (mixins r) rank n (orEmpty (event_parameters (eventOrEmpty event0)))"
    by (simp_all add: wellFormedEvent_def entry)
  from objectType_returns [OF assms(1) wf assms(3)] obtain e where
    e: "objectType fuel r (orEmpty (event_parameters (eventOrEmpty event0))) [] False
          = Some (Inr e)" by blast
  from titleCase_returns [OF ne] obtain title where t: "titleCase eventName = Inr title" ..
  show ?thesis
    unfolding entry st
    by (simp add: eventStep_def Let_def andThen_def e t)
qed

lemma eventLoop_returns:
  assumes "\<forall>v m ps. mixins r v = Some m \<longrightarrow> item_properties m = Some ps \<longrightarrow>
       wellFormedEntries (mixins r) rank (rank v) ps"
    and "n \<le> fuel"
  shows "list_all (wellFormedEvent (mixins r) rank n) es \<Longrightarrow>
     \<exists>st'. eventLoop fuel r ch es st = Some (Inr st')"
proof (induction es arbitrary: st)
  case Nil
  show ?case by (simp only: eventLoop.simps) blast
next
  case (Cons entry es)
  from Cons.prems have hd: "wellFormedEvent (mixins r) rank n entry"
    and tl: "list_all (wellFormedEvent (mixins r) rank n) es" by simp_all
  show ?case
    unfolding eventLoop.simps
    by (rule andThen_returns [OF eventStep_returns [OF assms(1) hd assms(2)]])
       (rule Cons.IH [OF tl])
qed

lemma commandStep_returns:
  assumes "\<forall>v m ps. mixins r v = Some m \<longrightarrow> item_properties m = Some ps \<longrightarrow>
       wellFormedEntries (mixins r) rank (rank v) ps"
    and "wellFormedCommand (mixins r) rank n entry" "n \<le> fuel"
  shows "\<exists>st'. commandStep fuel r d ch entry st = Some (Inr st')"
proof -
  obtain methodName method0 where entry: "entry = (methodName, method0)" by (cases entry)
  obtain out tt where st: "st = (out, tt)" by (cases st)
  from assms(2) have ne: "methodName \<noteq> []"
    and wp: "wellFormedProps (mixins r) rank n (orEmpty (parameters (commandOrEmpty method0)))"
    and wr: "wellFormedProps (mixins r) rank n (orEmpty (returns (commandOrEmpty method0)))"
    by (simp_all add: wellFormedCommand_def entry)
  from objectType_returns [OF assms(1) wp assms(3)] obtain params where
    p: "objectType fuel r (orEmpty (parameters (commandOrEmpty method0))) [] False
          = Some (Inr params)" by blast
  from objectType_returns [OF assms(1) wp assms(3)] obtain options where
    opt: "objectType fuel r (orEmpty (parameters (commandOrEmpty method0))) [] True
          = Some (Inr options)" by blast
  from objectType_returns [OF assms(1) wr assms(3)] obtain rets where
    rt: "objectType fuel r (orEmpty (returns (commandOrEmpty method0))) [] False
          = Some (Inr rets)" by blast
  from titleCase_returns [OF ne] obtain title where t: "titleCase methodName = Inr title" ..
  show ?thesis
    unfolding entry st
    by (simp add: commandStep_def Let_def andThen_def p opt rt t)
qed

lemma commandLoop_returns:
  assumes "\<forall>v m ps. mixins r v = Some m \<longrightarrow> item_properties m = Some ps \<longrightarrow>
       wellFormedEntries (mixins r) rank (rank v) ps"
    and "n \<le> fuel"
  shows "list_all (wellFormedCommand (mixins r) rank n) es \<Longrightarrow>
     \<exists>st'. commandLoop fuel r d ch es st = Some (Inr st')"
proof (induction es arbitrary: st)
  case Nil
  show ?case by simp
next
  case (Cons entry es)
  from Cons.prems have hd: "wellFormedCommand (mixins r) rank n entry"
    and tl: "list_all (wellFormedCommand (mixins r) rank n) es" by simp_all
  show ?case
    unfolding commandLoop.simps
    by (rule andThen_returns [OF commandStep_returns [OF assms(1) hd assms(2)]])
       (rule Cons.IH [OF tl])
qed

lemma interfaceItem_returns:
  assumes "\<forall>v m ps. mixins r v = Some m \<longrightarrow> item_properties m = Some ps \<longrightarrow>
       wellFormedEntries (mixins r) rank (rank v) ps"
    and "wellFormedItem (mixins r) rank n (name, item)" "item_type item = ''interface''"
    and "n \<le> fuel"
  shows "\<exists>out'. interfaceItem fuel r d name item out = Some (Inr out')"
proof -
  from assms(2,3) have wi: "wellFormedProps (mixins r) rank n (orEmpty (item_initializer item))"
    and we: "list_all (wellFormedEvent (mixins r) rank n) (entriesOf (item_events item))"
    and wc: "list_all (wellFormedCommand (mixins r) rank n) (entriesOf (item_commands item))"
    by (simp_all add: wellFormedItem_def)
  from objectType_returns [OF assms(1) wi assms(4)] obtain init where
    i: "objectType fuel r (orEmpty (item_initializer item)) [] False = Some (Inr init)" by blast
  from eventLoop_returns [OF assms(1) assms(4) we] obtain out1 tt1 et1 where
    e: "eventLoop fuel r name (entriesOf (item_events item)) (beforeEvents name init out, [], [])
          = Some (Inr (out1, tt1, et1))"
    by (metis prod_cases3)
  from commandLoop_returns [OF assms(1) assms(4) wc] obtain out2 tt2 where
    c: "commandLoop fuel r d name (entriesOf (item_commands item))
          (beforeCommands name item out1, tt1) = Some (Inr (out2, tt2))"
    by (metis prod.exhaust)
  show ?thesis
    by (simp add: interfaceItem_def andThen_def i e c)
qed

lemma mainLoop_returns:
  assumes "\<forall>v m ps. mixins r v = Some m \<longrightarrow> item_properties m = Some ps \<longrightarrow>
       wellFormedEntries (mixins r) rank (rank v) ps"
    and "n \<le> fuel"
  shows "list_all (wellFormedItem (mixins r) rank n) es \<Longrightarrow>
     \<exists>out'. mainLoop fuel r d es out = Some (Inr out')"
proof (induction es arbitrary: out)
  case Nil
  show ?case by simp
next
  case (Cons entry es)
  obtain name item where entry: "entry = (name, item)" by (cases entry)
  from Cons.prems have hd: "wellFormedItem (mixins r) rank n (name, item)"
    and tl: "list_all (wellFormedItem (mixins r) rank n) es" by (simp_all add: entry)
  have step: "\<exists>out1. (if item_type item = ''interface'' then interfaceItem fuel r d name item out
              else if item_type item = ''object'' then objectItem fuel r name item out
              else if item_type item = ''enum'' then enumItem name item out
              else Some (Inr out)) = Some (Inr out1)"
  proof (cases "item_type item = ''interface''")
    case True
    from interfaceItem_returns [OF assms(1) hd True assms(2)] show ?thesis
      by (simp only: if_P [OF True])
  next
    case False
    note ni = this
    show ?thesis
    proof (cases "item_type item = ''object''")
      case True
      from hd True have "wellFormedProps (mixins r) rank n (item_properties item)"
        by (simp add: wellFormedItem_def)
      from objectType_returns [OF assms(1) this assms(2)] obtain inner where
        "objectType fuel r (item_properties item) [] False = Some (Inr inner)" by blast
      with True show ?thesis by (simp add: objectItem_def andThen_def)
    next
      case False
      note no = this
      show ?thesis
      proof (cases "item_type item = ''enum''")
        case True
        with hd obtain ls where "item_literals item = Some ls"
          by (auto simp: wellFormedItem_def)
        with True show ?thesis by (simp add: enumItem_def)
      next
        case False
        with ni no show ?thesis by simp
      qed
    qed
  qed
  show ?case
    unfolding entry mainLoop.simps
    by (rule andThen_returns [OF step]) (rule Cons.IH [OF tl])
qed

text \<open>
  The generation returns its arrays on every well-formed document, given fuel for the
  bound of the ranks.
\<close>

lemma generate_returns:
  assumes "wellFormed rank n protocol" "n \<le> fuel"
  shows "\<exists>out. generate fuel protocol = Some (Inr out)"
proof -
  from assms(1) have wf: "list_all (wellFormedItem (mixins (registriesOf protocol)) rank n) protocol"
    by (simp add: wellFormed_def)
  from mainLoop_returns [OF wellFormed_mixins [OF assms(1)] assms(2) wf] obtain out1 where
    "mainLoop fuel (registriesOf protocol) (derivedClasses protocol) protocol
       (traits protocol \<lparr>channels_ts = [channels_ts_head], validator_ts = [validator_ts_head],
          tracingSnapshots = [], pausesBeforeInputActions = []\<rparr>) = Some (Inr out1)"
    by blast
  then show ?thesis
    by (simp add: generate_def Let_def andThen_def)
qed

text \<open>
  The sample documents are well formed.
\<close>

lemma wellFormed_sampleTracing: "wellFormed (\<lambda>name. 0) 1 sampleTracing"
  by (simp add: sampleTracing_def wellFormed_def wellFormedItem_def wellFormedCommand_def wellFormedProps_def
        registriesOf_def orEmpty_def entriesOf_def commandOrEmpty_def startsWith_def Let_def extendsOf_def)

lemma wellFormed_sampleInherited: "wellFormed (\<lambda>name. 0) 1 sampleInherited"
  by (simp add: sampleInherited_def wellFormed_def wellFormedItem_def wellFormedCommand_def
        wellFormedProps_def registriesOf_def orEmpty_def entriesOf_def commandOrEmpty_def
        startsWith_def Let_def extendsOf_def)

lemma wellFormed_sampleOverride: "wellFormed (\<lambda>name. 0) 0 sampleOverride"
  by (simp add: sampleOverride_def wellFormed_def wellFormedItem_def wellFormedCommand_def
        wellFormedProps_def registriesOf_def orEmpty_def entriesOf_def commandOrEmpty_def
        startsWith_def Let_def extendsOf_def)

lemma wellFormed_sampleOptional: "wellFormed (\<lambda>name. 0) 1 sampleOptional"
  by (simp add: sampleOptional_def wellFormed_def wellFormedItem_def wellFormedCommand_def
        wellFormedProps_def registriesOf_def orEmpty_def entriesOf_def commandOrEmpty_def
        startsWith_def Let_def extendsOf_def)

lemma wellFormed_sampleNumbered: "wellFormed (\<lambda>name. 0) 0 (objectEntries sampleNumbered)"
  by (simp add: objectEntries_def arrayIndex_def digitValue_def sampleNumbered_def
        wellFormed_def wellFormedItem_def wellFormedProps_def orEmpty_def entriesOf_def)


section \<open>The generated registry in closed form\<close>

text \<open>
  Every step of the loops appends to \<open>validator_ts\<close> the lines of the assignments it
  makes, so the array that the generation returns is the preamble, the lines of
  \<open>assignments\<close>, and the closing lines.
\<close>

lemma assignmentLines_simps:
  "assignmentLines [] = []"
  "assignmentLines ((name, s) # as) = schemeLines name s @ assignmentLines as"
  "assignmentLines (as @ bs) = assignmentLines as @ assignmentLines bs"
  by (simp_all add: assignmentLines_def)

lemma alias_lines:
  "concat (map (\<lambda>(key, parent). if parent = ch then schemeLines (f key) s else []) inh)
     = assignmentLines (map (\<lambda>(key, parent). (f key, s)) (filter (\<lambda>(key, parent). parent = ch) inh))"
  by (induction inh) (auto simp: assignmentLines_def)

lemma commandStep_validator:
  assumes "commandStep fuel r d ch entry (out, tt) = Some (Inr (out', tt'))"
  shows "validator_ts out' = validator_ts out @ assignmentLines (commandAssignments fuel r ch entry)"
proof -
  obtain m method0 where entry: "entry = (m, method0)" by (cases entry)
  from commandStep_effect [OF assms [unfolded entry]] obtain title params where
    t: "titleCase m = Inr title"
    and p: "objectType fuel r (orEmpty (parameters (commandOrEmpty method0))) [] False
           = Some (Inr params)"
    and v: "validator_ts out' = validator_ts out
         @ schemeLines (ch @ title @ ''Params'')
             (paramsScheme (commandOrEmpty method0) params)
         @ concat (map (\<lambda>(key, parent). if parent = ch
             then schemeLines (key @ title @ ''Params'') (lookupByName (ch @ title @ ''Params'')) else []) (inherits r))"
    by (elim exE conjE) (rule that)
  show ?thesis
    unfolding v entry
    by (simp add: commandAssignments_def t p assignmentLines_simps
          alias_lines [of ch "\<lambda>key. key @ title @ ''Params''"])
qed

lemma commandLoop_validator:
  "commandLoop fuel r d ch cmds (out, tt) = Some (Inr (out', tt')) \<Longrightarrow>
     validator_ts out' = validator_ts out
       @ assignmentLines (concat (map (commandAssignments fuel r ch) cmds))"
proof (induction cmds arbitrary: out tt)
  case Nil
  then show ?case by (simp add: assignmentLines_simps)
next
  case (Cons entry cmds)
  from Cons.prems obtain out1 tt1 where
    step: "commandStep fuel r d ch entry (out, tt) = Some (Inr (out1, tt1))"
    and rest: "commandLoop fuel r d ch cmds (out1, tt1) = Some (Inr (out', tt'))"
    by (auto simp: andThen_ok)
  from commandStep_validator [OF step] Cons.IH [OF rest] show ?case
    by (simp add: assignmentLines_simps)
qed

lemma interfaceItem_validator:
  assumes "interfaceItem fuel r d ch item out = Some (Inr out')" "item_type item = ''interface''"
  shows "validator_ts out' = validator_ts out @ assignmentLines (itemAssignments fuel r (ch, item))"
proof -
  from interfaceItem_split [OF assms(1)] obtain out1 out2 tt1 tt2 where
    a: "validator_ts out1 = validator_ts out"
    and cl: "commandLoop fuel r d ch (entriesOf (item_commands item)) (out1, tt1)
               = Some (Inr (out2, tt2))"
    and b: "validator_ts out' = validator_ts out2"
    by blast
  from commandLoop_validator [OF cl] a b assms(2) show ?thesis
    by (simp add: itemAssignments_def)
qed

lemma mainLoop_validator:
  "mainLoop fuel r d protocol out = Some (Inr out') \<Longrightarrow>
     validator_ts out' = validator_ts out
       @ assignmentLines (concat (map (itemAssignments fuel r) protocol))"
proof (induction protocol arbitrary: out)
  case Nil
  then show ?case by (simp add: assignmentLines_simps)
next
  case (Cons entry protocol)
  obtain name item where entry: "entry = (name, item)" by (cases entry)
  from Cons.prems obtain out1 where
    step: "(if item_type item = ''interface'' then interfaceItem fuel r d name item out
              else if item_type item = ''object'' then objectItem fuel r name item out
              else if item_type item = ''enum'' then enumItem name item out
              else Some (Inr out)) = Some (Inr out1)"
    and rest: "mainLoop fuel r d protocol out1 = Some (Inr out')"
    by (auto simp: andThen_ok entry)
  have "validator_ts out1 = validator_ts out @ assignmentLines (itemAssignments fuel r (name, item))"
  proof (cases "item_type item = ''interface''")
    case True
    with step have "interfaceItem fuel r d name item out = Some (Inr out1)" by simp
    from interfaceItem_validator [OF this True] show ?thesis .
  next
    case False
    with step show ?thesis
      by (auto simp: itemAssignments_def objectItem_def enumItem_def andThen_ok push_fields
            addScheme_fields assignmentLines_def split: if_splits option.splits)
  qed
  with Cons.IH [OF rest] show ?case
    by (simp add: entry assignmentLines_simps)
qed

lemma generate_validator:
  assumes "generate fuel protocol = Some (Inr out)"
  shows "validator_ts out = [validator_ts_head] @ assignmentLines (assignments fuel protocol)
           @ [''\<newline>  return scheme;\<newline>}\<newline>'']"
proof -
  from assms obtain out1 where
    ml: "mainLoop fuel (registriesOf protocol) (derivedClasses protocol) protocol
            (traits protocol \<lparr>channels_ts = [channels_ts_head], validator_ts = [validator_ts_head],
                 tracingSnapshots = [], pausesBeforeInputActions = []\<rparr>) = Some (Inr out1)"
    and v: "validator_ts out = validator_ts out1 @ [''\<newline>  return scheme;\<newline>}\<newline>'']"
    by (auto simp: generate_def Let_def andThen_ok push_fields)
  from mainLoop_validator [OF ml] v show ?thesis
    by (simp add: traits_fields assignments_def)
qed

text \<open>
  A name that is assigned one right-hand side only holds it at run time.
\<close>

lemma registered_unique:
  assumes "(name, s) \<in> set as" "\<forall>s'. (name, s') \<in> set as \<longrightarrow> s' = s"
  shows "registered as name = Some s"
proof -
  from assms(1) have "name \<in> fst ` set (rev as)" by force
  then obtain s' where s': "map_of (rev as) name = Some s'"
    by (cases "map_of (rev as) name") (auto simp: map_of_eq_None_iff)
  from map_of_SomeD [OF s'] have "(name, s') \<in> set as" by simp
  with assms(2) s' show ?thesis by (simp add: registered_def)
qed

text \<open>
  Where the assignments of one command stand among all assignments.
\<close>

lemma concat_map_split:
  "x \<in> set xs \<Longrightarrow> \<exists>pre post. concat (map f xs) = pre @ f x @ post"
proof -
  assume "x \<in> set xs"
  then obtain ys zs where "xs = ys @ x # zs" by (meson split_list)
  then have "concat (map f xs) = concat (map f ys) @ f x @ concat (map f zs)" by simp
  then show ?thesis by blast
qed

lemma commandAssignments_split:
  assumes "titleCase m = Inr title"
    and "objectType fuel r (orEmpty (parameters (commandOrEmpty method0))) [] False
           = Some (Inr params)"
    and "(B, A) \<in> set (inherits r)"
  shows "\<exists>mid post. commandAssignments fuel r A (m, method0)
     = (A @ title @ ''Params'', paramsScheme (commandOrEmpty method0) params) # mid
       @ (B @ title @ ''Params'', lookupByName (A @ title @ ''Params'')) # post"
proof -
  from assms(3) have "(B, A) \<in> set (filter (\<lambda>(key, parent). parent = A) (inherits r))" by simp
  then obtain f1 f2 where "filter (\<lambda>(key, parent). parent = A) (inherits r) = f1 @ (B, A) # f2"
    by (meson split_list)
  then have "commandAssignments fuel r A (m, method0)
     = (A @ title @ ''Params'', paramsScheme (commandOrEmpty method0) params)
       # map (\<lambda>(key, parent). (key @ title @ ''Params'', lookupByName (A @ title @ ''Params''))) f1
       @ (B @ title @ ''Params'', lookupByName (A @ title @ ''Params''))
       # map (\<lambda>(key, parent). (key @ title @ ''Params'', lookupByName (A @ title @ ''Params''))) f2"
    by (simp add: commandAssignments_def assms(1,2))
  then show ?thesis by blast
qed

lemma assignments_split:
  assumes "(A, parent) \<in> set protocol" "item_type parent = ''interface''"
    and "(m, method0) \<in> set (entriesOf (item_commands parent))"
  shows "\<exists>pre post. assignments fuel protocol
     = pre @ commandAssignments fuel (registriesOf protocol) A (m, method0) @ post"
proof -
  from concat_map_split [OF assms(1), of "itemAssignments fuel (registriesOf protocol)"]
  obtain p1 p2 where 1: "assignments fuel protocol
      = p1 @ itemAssignments fuel (registriesOf protocol) (A, parent) @ p2"
    unfolding assignments_def by blast
  from concat_map_split [OF assms(3), of "commandAssignments fuel (registriesOf protocol) A"]
  obtain c1 c2 where 2: "itemAssignments fuel (registriesOf protocol) (A, parent)
      = c1 @ commandAssignments fuel (registriesOf protocol) A (m, method0) @ c2"
    unfolding itemAssignments_def using assms(2) by auto
  have "assignments fuel protocol
      = (p1 @ c1) @ commandAssignments fuel (registriesOf protocol) A (m, method0) @ (c2 @ p2)"
    unfolding 1 2 by simp
  then show ?thesis by blast
qed

lemma generate_assignments:
  assumes "generate fuel protocol = Some (Inr out)"
    and "(ch, item) \<in> set protocol" "item_type item = ''interface''"
    and "(m, method0) \<in> set (entriesOf (item_commands item))"
  shows "\<exists>title params pre post.
       titleCase m = Inr title
     \<and> objectType fuel (registriesOf protocol) (orEmpty (parameters (commandOrEmpty method0)))
           [] False = Some (Inr params)
     \<and> (methodSignature m (commandOrEmpty method0) (ch @ title @ ''Params'') (ch @ title @ ''Result''))
          \<in> set (channels_ts out)
     \<and> assignments fuel protocol
         = pre @ commandAssignments fuel (registriesOf protocol) ch (m, method0) @ post"
proof -
  from generate_contains [OF assms] obtain title params where
    t: "titleCase m = Inr title"
    and p: "objectType fuel (registriesOf protocol)
              (orEmpty (parameters (commandOrEmpty method0))) [] False = Some (Inr params)"
    and l: "methodSignature m (commandOrEmpty method0) (ch @ title @ ''Params'')
              (ch @ title @ ''Result'') \<in> set (channels_ts out)"
    by (elim exE conjE) (rule that)
  from assignments_split [OF assms(2,3,4)] obtain pre post where
    a: "assignments fuel protocol
         = pre @ commandAssignments fuel (registriesOf protocol) ch (m, method0) @ post"
    by blast
  show ?thesis
    by (rule exI [of _ title], rule exI [of _ params], rule exI [of _ pre], rule exI [of _ post])
       (intro conjI t p l a)
qed

text \<open>
  The assignments of the sample documents.
\<close>

lemma assignments_sampleInherited:
  "assignments 1 sampleInherited
     = [(''AFooParams'', ''tObject({\<newline>  x: tString,\<newline>  label: tOptional(tString),\<newline>})''),
        (''BFooParams'', ''tType('AFooParams')'')]"
  by (simp add: assignments_def itemAssignments_def commandAssignments_def sampleInherited_def
        registriesOf_def extendsOf_def Let_def entriesOf_def orEmpty_def commandOrEmpty_def
        objectType_def andThen_def tsLine_def schemeLine_def titleCase_def toUpperCase_def
        startsWith_def endsWith_def paramsScheme_def lookupByName_def quoted_def)

lemma assignments_sampleOverride:
  "assignments 0 sampleOverride
     = [(''AMParams'', ''tObject({\<newline>  x: tString,\<newline>})''),
        (''BMParams'', ''tType('AMParams')''),
        (''BMParams'', ''tObject({\<newline>  y: tNumber,\<newline>})'')]"
  by (simp add: assignments_def itemAssignments_def commandAssignments_def sampleOverride_def
        registriesOf_def extendsOf_def Let_def entriesOf_def orEmpty_def commandOrEmpty_def
        objectType_def andThen_def tsLine_def schemeLine_def titleCase_def toUpperCase_def
        startsWith_def endsWith_def paramsScheme_def lookupByName_def quoted_def)

lemma assignments_sampleOptional:
  "assignments 1 sampleOptional
     = [(''CFooParams'', ''tObject({\<newline>  label: tOptional(tString),\<newline>})''),
        (''CBarParams'', ''tOptional(tObject({}))'')]"
  by (simp add: assignments_def itemAssignments_def commandAssignments_def sampleOptional_def
        registriesOf_def extendsOf_def Let_def entriesOf_def orEmpty_def commandOrEmpty_def
        objectType_def andThen_def tsLine_def schemeLine_def titleCase_def toUpperCase_def
        startsWith_def endsWith_def paramsScheme_def lookupByName_def quoted_def)

lemma sampleRegistry_realises:
  "\<forall>name X. registered (assignments 1 sampleInherited) name
       = Some (''tType('' @ [CHR 0x27] @ X @ [CHR 0x27] @ '')'') \<longrightarrow>
     sampleRegistry name = Some (tType sampleRegistry X)"
proof (intro allI impI)
  fix name X
  assume r: "registered (assignments 1 sampleInherited) name
       = Some (''tType('' @ [CHR 0x27] @ X @ [CHR 0x27] @ '')'')"
  have look: "tType sampleRegistry ''AFooParams''
      = tObject [(''x'', tString), (''label'', tOptional tString)]"
    by (rule ext, rule ext) (simp add: tType_def sampleRegistry_def)
  from r [unfolded assignments_sampleInherited] have name: "name = ''BFooParams''"
    and x: "''AFooParams'' @ [CHR 0x27, CHR '')''] = X @ [CHR 0x27, CHR '')'']"
    by (simp_all add: registered_def split: if_splits)
  from x have "X = ''AFooParams''" by (simp only: append_same_eq)
  with name look show "sampleRegistry name = Some (tType sampleRegistry X)"
    by (simp add: sampleRegistry_def)
qed


section \<open>The trait chains in closed form\<close>

lemma generate_traits:
  assumes "generate fuel protocol = Some (Inr out)"
  shows "\<exists>rest. channels_ts out =
     [channels_ts_head,
      ''// ----------- Initializer Traits -----------'', ''export type InitializerTraits<T> ='']
     @ map (\<lambda>name. ''    T extends '' @ name @ ''Channel ? '' @ name @ ''Initializer :'')
         (rev (map fst (filter (\<lambda>(name, item). item_type item = ''interface'') protocol)))
     @ [''    object;'', [], ''// ----------- Event Traits -----------'',
        ''export type EventsTraits<T> ='']
     @ map (\<lambda>name. ''    T extends '' @ name @ ''Channel ? '' @ name @ ''Events :'')
         (rev (map fst (filter (\<lambda>(name, item). item_type item = ''interface'') protocol)))
     @ [''    undefined;'', [], ''// ----------- EventTarget Traits -----------'',
        ''export type EventTargetTraits<T> ='']
     @ map (\<lambda>name. ''    T extends '' @ name @ ''Channel ? '' @ name @ ''EventTarget :'')
         (rev (map fst (filter (\<lambda>(name, item). item_type item = ''interface'') protocol)))
     @ [''    undefined;'', []] @ rest"
proof -
  from generate_mainLoop [OF assms] obtain out1 where
    ml: "mainLoop fuel (registriesOf protocol) (derivedClasses protocol) protocol
            (traits protocol \<lparr>channels_ts = [channels_ts_head], validator_ts = [validator_ts_head],
                 tracingSnapshots = [], pausesBeforeInputActions = []\<rparr>) = Some (Inr out1)"
    and p: "prefix (channels_ts out1) (channels_ts out)"
    by blast
  from mainLoop_appends [OF ml] p have
    "prefix (channels_ts (traits protocol \<lparr>channels_ts = [channels_ts_head],
        validator_ts = [validator_ts_head], tracingSnapshots = [],
        pausesBeforeInputActions = []\<rparr>)) (channels_ts out)"
    using prefix_order.trans by blast
  then show ?thesis
    unfolding traits_fields prefix_def by simp
qed

lemma objectEntries_plain:
  assumes "\<forall>key \<in> fst ` set document. arrayIndex key = None"
  shows "objectEntries document = document"
proof -
  from assms have 1: "filter (\<lambda>(key, val). arrayIndex key \<noteq> None) document = []"
    by (auto simp: filter_empty_conv)
  from assms have 2: "filter (\<lambda>(key, val). arrayIndex key = None) document = document"
    by (auto simp: filter_id_conv)
  show ?thesis unfolding objectEntries_def 1 2 by simp
qed

lemma objectEntries_sampleNumbered:
  "channelNames (objectEntries sampleNumbered) = [''1'', ''2'', ''B'']"
  "channelNames sampleNumbered = [''B'', ''2'', ''1'']"
  by (simp_all add: objectEntries_def arrayIndex_def digitValue_def sampleNumbered_def
        channelNames_def)


section \<open>The property list in closed form\<close>






section \<open>Termination of the resolver\<close>
















section \<open>The types of an interface in closed form\<close>




















section \<open>The trait chains\<close>

text \<open>
  Claim C5, as stated, fails.  The document declares, in this order, the channel \<open>B\<close>, the
  channel \<open>2\<close>, the object \<open>O\<close> and the channel \<open>1\<close>.  The script reverses
  \<open>Object.entries(protocol)\<close>, which enumerates the keys \<open>1\<close> and \<open>2\<close> first, so the chain
  it emits tests \<open>B\<close>, then \<open>2\<close>, then \<open>1\<close>; the reverse of the order of the document is
  \<open>1\<close>, \<open>2\<close>, \<open>B\<close>.
\<close>

theorem reverse_document_order_counterexample:
  "returned (generate 0 (objectEntries sampleNumbered))
   \<and> take 8 (channels_ts (the (resultOf (generate 0 (objectEntries sampleNumbered)))))
     = [channels_ts_head,
        ''// ----------- Initializer Traits -----------'', ''export type InitializerTraits<T> ='',
        ''    T extends BChannel ? BInitializer :'',
        ''    T extends 2Channel ? 2Initializer :'',
        ''    T extends 1Channel ? 1Initializer :'',
        ''    object;'', []]
   \<and> rev (channelNames sampleNumbered) = [''1'', ''2'', ''B'']"
proof -
  from generate_returns [OF wellFormed_sampleNumbered order_refl]
  obtain out where out: "generate 0 (objectEntries sampleNumbered) = Some (Inr out)" ..
  from generate_traits [OF out] obtain rest where
    "channels_ts out =
     [channels_ts_head,
      ''// ----------- Initializer Traits -----------'', ''export type InitializerTraits<T> ='']
     @ map (\<lambda>name. ''    T extends '' @ name @ ''Channel ? '' @ name @ ''Initializer :'')
         (rev (channelNames (objectEntries sampleNumbered)))
     @ [''    object;'', [], ''// ----------- Event Traits -----------'',
        ''export type EventsTraits<T> ='']
     @ map (\<lambda>name. ''    T extends '' @ name @ ''Channel ? '' @ name @ ''Events :'')
         (rev (channelNames (objectEntries sampleNumbered)))
     @ [''    undefined;'', [], ''// ----------- EventTarget Traits -----------'',
        ''export type EventTargetTraits<T> ='']
     @ map (\<lambda>name. ''    T extends '' @ name @ ''Channel ? '' @ name @ ''EventTarget :'')
         (rev (channelNames (objectEntries sampleNumbered)))
     @ [''    undefined;'', []] @ rest"
    unfolding channelNames_def ..
  then have "take 8 (channels_ts out)
     = [channels_ts_head,
        ''// ----------- Initializer Traits -----------'', ''export type InitializerTraits<T> ='',
        ''    T extends BChannel ? BInitializer :'',
        ''    T extends 2Channel ? 2Initializer :'',
        ''    T extends 1Channel ? 1Initializer :'',
        ''    object;'', []]"
    by (simp add: objectEntries_sampleNumbered)
  then show ?thesis
    unfolding out by (simp add: returned_def resultOf_def objectEntries_sampleNumbered)
qed

text \<open>
  Claim C5, amended.  After the fixed head, \<open>channels_ts\<close> holds the three trait mappings:
  each lists exactly the interfaces of the document in the reverse of the order in which
  \<open>Object.entries\<close> enumerates the document (keys that are array indices first, in
  ascending order, then the other keys as the document writes them), skips every other
  entry, and ends with its fallback (\<open>object\<close>, \<open>undefined\<close>, \<open>undefined\<close>).  When no key of
  the document is an array index, the order of enumeration is the order of the document,
  and the chains test the channel declared last first.  On a well-formed document the
  generation returns, given fuel for the depth of the splices.
\<close>

theorem trait_chains_in_reverse_enumeration_order:
  "(generate fuel (objectEntries document) = Some (Inr out) \<longrightarrow>
      (\<exists>rest. channels_ts out =
         [channels_ts_head,
          ''// ----------- Initializer Traits -----------'', ''export type InitializerTraits<T> ='']
         @ map (\<lambda>name. ''    T extends '' @ name @ ''Channel ? '' @ name @ ''Initializer :'')
             (rev (map fst (filter (\<lambda>(name, item). item_type item = ''interface'')
                (objectEntries document))))
         @ [''    object;'', [], ''// ----------- Event Traits -----------'',
            ''export type EventsTraits<T> ='']
         @ map (\<lambda>name. ''    T extends '' @ name @ ''Channel ? '' @ name @ ''Events :'')
             (rev (map fst (filter (\<lambda>(name, item). item_type item = ''interface'')
                (objectEntries document))))
         @ [''    undefined;'', [], ''// ----------- EventTarget Traits -----------'',
            ''export type EventTargetTraits<T> ='']
         @ map (\<lambda>name. ''    T extends '' @ name @ ''Channel ? '' @ name @ ''EventTarget :'')
             (rev (map fst (filter (\<lambda>(name, item). item_type item = ''interface'')
                (objectEntries document))))
         @ [''    undefined;'', []] @ rest))
   \<and> ((\<forall>key \<in> fst ` set document. arrayIndex key = None) \<longrightarrow>
         objectEntries document = document)
   \<and> (wellFormed rank n (objectEntries document) \<and> n \<le> fuel \<longrightarrow>
         (\<exists>out. generate fuel (objectEntries document) = Some (Inr out)))"
proof (intro conjI impI)
  assume "generate fuel (objectEntries document) = Some (Inr out)"
  from generate_traits [OF this] show "\<exists>rest. channels_ts out =
         [channels_ts_head,
          ''// ----------- Initializer Traits -----------'', ''export type InitializerTraits<T> ='']
         @ map (\<lambda>name. ''    T extends '' @ name @ ''Channel ? '' @ name @ ''Initializer :'')
             (rev (map fst (filter (\<lambda>(name, item). item_type item = ''interface'')
                (objectEntries document))))
         @ [''    object;'', [], ''// ----------- Event Traits -----------'',
            ''export type EventsTraits<T> ='']
         @ map (\<lambda>name. ''    T extends '' @ name @ ''Channel ? '' @ name @ ''Events :'')
             (rev (map fst (filter (\<lambda>(name, item). item_type item = ''interface'')
                (objectEntries document))))
         @ [''    undefined;'', [], ''// ----------- EventTarget Traits -----------'',
            ''export type EventTargetTraits<T> ='']
         @ map (\<lambda>name. ''    T extends '' @ name @ ''Channel ? '' @ name @ ''EventTarget :'')
             (rev (map fst (filter (\<lambda>(name, item). item_type item = ''interface'')
                (objectEntries document))))
         @ [''    undefined;'', []] @ rest" .
next
  assume "\<forall>key \<in> fst ` set document. arrayIndex key = None"
  then show "objectEntries document = document" by (rule objectEntries_plain)
next
  assume "wellFormed rank n (objectEntries document) \<and> n \<le> fuel"
  then show "\<exists>out. generate fuel (objectEntries document) = Some (Inr out)"
    using generate_returns by blast
qed

text \<open>
  On \<open>sampleTracing\<close>, whose keys are \<open>M\<close>, \<open>A\<close>, \<open>B\<close>, \<open>G\<close>: the chains test \<open>G\<close>, then
  \<open>B\<close>, then \<open>A\<close>.
\<close>

theorem trait_chains_in_reverse_enumeration_order_witness:
  "arrayIndex ''M'' = None \<and> arrayIndex ''A'' = None \<and> arrayIndex ''B'' = None
   \<and> arrayIndex ''G'' = None
   \<and> objectEntries sampleTracing = sampleTracing
   \<and> wellFormed (\<lambda>name. 0) 1 (objectEntries sampleTracing)
   \<and> (\<exists>out rest. generate 1 (objectEntries sampleTracing) = Some (Inr out)
        \<and> channels_ts out =
           [channels_ts_head,
            ''// ----------- Initializer Traits -----------'',
            ''export type InitializerTraits<T> ='',
            ''    T extends GChannel ? GInitializer :'',
            ''    T extends BChannel ? BInitializer :'',
            ''    T extends AChannel ? AInitializer :'',
            ''    object;'', [],
            ''// ----------- Event Traits -----------'', ''export type EventsTraits<T> ='',
            ''    T extends GChannel ? GEvents :'',
            ''    T extends BChannel ? BEvents :'',
            ''    T extends AChannel ? AEvents :'',
            ''    undefined;'', [],
            ''// ----------- EventTarget Traits -----------'',
            ''export type EventTargetTraits<T> ='',
            ''    T extends GChannel ? GEventTarget :'',
            ''    T extends BChannel ? BEventTarget :'',
            ''    T extends AChannel ? AEventTarget :'',
            ''    undefined;'', []] @ rest)"
proof -
  note claim = trait_chains_in_reverse_enumeration_order [where fuel = 1
      and document = sampleTracing and rank = "\<lambda>name. 0" and n = 1]
  have keys: "\<forall>key \<in> fst ` set sampleTracing. arrayIndex key = None"
    by (simp add: sampleTracing_def arrayIndex_def digitValue_def)
  have plain: "objectEntries sampleTracing = sampleTracing"
    by (rule claim [THEN conjunct2, THEN conjunct1, THEN mp, OF keys])
  have wf: "wellFormed (\<lambda>name. 0) 1 (objectEntries sampleTracing)"
    unfolding plain by (rule wellFormed_sampleTracing)
  have "\<exists>out. generate 1 (objectEntries sampleTracing) = Some (Inr out)"
    by (rule claim [THEN conjunct2, THEN conjunct2, rule_format, OF conjI [OF wf order_refl]])
  then obtain out where out: "generate 1 (objectEntries sampleTracing) = Some (Inr out)" ..
  from claim [THEN conjunct1, rule_format, OF out] obtain rest where
    "channels_ts out =
         [channels_ts_head,
          ''// ----------- Initializer Traits -----------'', ''export type InitializerTraits<T> ='']
         @ map (\<lambda>name. ''    T extends '' @ name @ ''Channel ? '' @ name @ ''Initializer :'')
             (rev (map fst (filter (\<lambda>(name, item). item_type item = ''interface'')
                (objectEntries sampleTracing))))
         @ [''    object;'', [], ''// ----------- Event Traits -----------'',
            ''export type EventsTraits<T> ='']
         @ map (\<lambda>name. ''    T extends '' @ name @ ''Channel ? '' @ name @ ''Events :'')
             (rev (map fst (filter (\<lambda>(name, item). item_type item = ''interface'')
                (objectEntries sampleTracing))))
         @ [''    undefined;'', [], ''// ----------- EventTarget Traits -----------'',
            ''export type EventTargetTraits<T> ='']
         @ map (\<lambda>name. ''    T extends '' @ name @ ''Channel ? '' @ name @ ''EventTarget :'')
             (rev (map fst (filter (\<lambda>(name, item). item_type item = ''interface'')
                (objectEntries sampleTracing))))
         @ [''    undefined;'', []] @ rest" ..
  then have ch: "channels_ts out =
           [channels_ts_head,
            ''// ----------- Initializer Traits -----------'',
            ''export type InitializerTraits<T> ='',
            ''    T extends GChannel ? GInitializer :'',
            ''    T extends BChannel ? BInitializer :'',
            ''    T extends AChannel ? AInitializer :'',
            ''    object;'', [],
            ''// ----------- Event Traits -----------'', ''export type EventsTraits<T> ='',
            ''    T extends GChannel ? GEvents :'',
            ''    T extends BChannel ? BEvents :'',
            ''    T extends AChannel ? AEvents :'',
            ''    undefined;'', [],
            ''// ----------- EventTarget Traits -----------'',
            ''export type EventTargetTraits<T> ='',
            ''    T extends GChannel ? GEventTarget :'',
            ''    T extends BChannel ? BEventTarget :'',
            ''    T extends AChannel ? AEventTarget :'',
            ''    undefined;'', []] @ rest"
    unfolding plain by (simp add: sampleTracing_def)
  have idx: "arrayIndex ''M'' = None" "arrayIndex ''A'' = None" "arrayIndex ''B'' = None"
    "arrayIndex ''G'' = None"
    by (simp_all add: arrayIndex_def digitValue_def)
  show ?thesis
    by (intro conjI idx plain wf exI [of _ out] exI [of _ rest] out ch)
qed


section \<open>The commands recorded for tracing\<close>

text \<open>
  Claim C3.  A string is in the snapshot set exactly when it is \<open>C.m\<close> for a command
  \<open>m\<close> of a channel \<open>C\<close> that carries \<open>tracing.snapshot\<close>, or \<open>D.m\<close> for such a command
  and a channel \<open>D\<close> whose own \<open>extends\<close> names \<open>C\<close>; likewise for
  \<open>tracing.pausesBeforeInput\<close> and the other set.  Nothing is recorded for a channel that
  extends \<open>D\<close>.  On a well-formed document the generation returns the two sets, given
  fuel for the depth of the splices.
\<close>

theorem tracing_flags_reach_direct_children_only:
  "(generate fuel protocol = Some (Inr out) \<longrightarrow>
      (x \<in> set (tracingSnapshots out) \<longleftrightarrow>
          (\<exists>C item. (C, item) \<in> set protocol \<and> item_type item = ''interface''
             \<and> (\<exists>m method. (m, method) \<in> set (entriesOf (item_commands item))
             \<and> flagged snapshot (commandOrEmpty method)
             \<and> (x = C @ ''.'' @ m
                \<or> (\<exists>D child. (D, child) \<in> set protocol \<and> item_type child = ''interface''
                      \<and> extendsOf child = Some C \<and> x = D @ ''.'' @ m)))))
       \<and> (y \<in> set (pausesBeforeInputActions out) \<longleftrightarrow>
          (\<exists>C item. (C, item) \<in> set protocol \<and> item_type item = ''interface''
             \<and> (\<exists>m method. (m, method) \<in> set (entriesOf (item_commands item))
             \<and> flagged pausesBeforeInput (commandOrEmpty method)
             \<and> (y = C @ ''.'' @ m
                \<or> (\<exists>D child. (D, child) \<in> set protocol \<and> item_type child = ''interface''
                      \<and> extendsOf child = Some C \<and> y = D @ ''.'' @ m))))))
   \<and> (wellFormed rank n protocol \<and> n \<le> fuel \<longrightarrow> (\<exists>out. generate fuel protocol = Some (Inr out)))"
proof (intro conjI impI)
  assume gen: "generate fuel protocol = Some (Inr out)"
  have direct: "\<And>z C m. (\<exists>D \<in> set (derivedOf (derivedClasses protocol) C). z = D @ ''.'' @ m)
      \<longleftrightarrow> (\<exists>D child. (D, child) \<in> set protocol \<and> item_type child = ''interface''
                      \<and> extendsOf child = Some C \<and> z = D @ ''.'' @ m)"
    unfolding Bex_def children_iff by blast
  show "x \<in> set (tracingSnapshots out) \<longleftrightarrow>
          (\<exists>C item. (C, item) \<in> set protocol \<and> item_type item = ''interface''
             \<and> (\<exists>m method. (m, method) \<in> set (entriesOf (item_commands item))
             \<and> flagged snapshot (commandOrEmpty method)
             \<and> (x = C @ ''.'' @ m
                \<or> (\<exists>D child. (D, child) \<in> set protocol \<and> item_type child = ''interface''
                      \<and> extendsOf child = Some C \<and> x = D @ ''.'' @ m))))"
    unfolding generate_tracing [OF gen] recorded_iff label_iff direct by (rule refl)
  show "y \<in> set (pausesBeforeInputActions out) \<longleftrightarrow>
          (\<exists>C item. (C, item) \<in> set protocol \<and> item_type item = ''interface''
             \<and> (\<exists>m method. (m, method) \<in> set (entriesOf (item_commands item))
             \<and> flagged pausesBeforeInput (commandOrEmpty method)
             \<and> (y = C @ ''.'' @ m
                \<or> (\<exists>D child. (D, child) \<in> set protocol \<and> item_type child = ''interface''
                      \<and> extendsOf child = Some C \<and> y = D @ ''.'' @ m))))"
    unfolding generate_tracing [OF gen] recorded_iff label_iff direct by (rule refl)
next
  assume "wellFormed rank n protocol \<and> n \<le> fuel"
  then show "\<exists>out. generate fuel protocol = Some (Inr out)"
    using generate_returns by blast
qed

text \<open>
  On \<open>sampleTracing\<close>, with \<open>A\<close> extended by \<open>B\<close> extended by \<open>G\<close>, the flag on \<open>A.m\<close> and
  a splice in the parameters of \<open>A.m\<close>: the generation returns with fuel 1, \<open>A.m\<close> and
  \<open>B.m\<close> are recorded, \<open>G.m\<close> is not.
\<close>

theorem tracing_flags_reach_direct_children_only_witness:
  "wellFormed (\<lambda>name. 0) 1 sampleTracing
   \<and> (\<exists>out. generate 1 sampleTracing = Some (Inr out)
    \<and> ''A.m'' \<in> set (tracingSnapshots out) \<and> ''B.m'' \<in> set (tracingSnapshots out)
    \<and> ''G.m'' \<notin> set (tracingSnapshots out) \<and> ''A.m'' \<notin> set (pausesBeforeInputActions out))"
proof -
  have wf: "wellFormed (\<lambda>name. 0) 1 sampleTracing" by (rule wellFormed_sampleTracing)
  have "\<exists>out. generate 1 sampleTracing = Some (Inr out)"
    by (rule tracing_flags_reach_direct_children_only [THEN conjunct2, rule_format,
          OF conjI [OF wf order_refl]])
  then obtain out where out: "generate 1 sampleTracing = Some (Inr out)" ..
  note iffs = tracing_flags_reach_direct_children_only [THEN conjunct1, rule_format, OF out]
  have a: "''A.m'' \<in> set (tracingSnapshots out)"
    unfolding iffs [THEN conjunct1]
    by (simp add: sampleTracing_def entriesOf_def flagged_def commandOrEmpty_def extendsOf_def
          conj_disj_distribR conj_disj_distribL ex_disj_distrib)
  have b: "''B.m'' \<in> set (tracingSnapshots out)"
    unfolding iffs [THEN conjunct1]
    by (simp add: sampleTracing_def entriesOf_def flagged_def commandOrEmpty_def extendsOf_def
          conj_disj_distribR conj_disj_distribL ex_disj_distrib)
  have g: "''G.m'' \<notin> set (tracingSnapshots out)"
    unfolding iffs [THEN conjunct1]
    by (simp add: sampleTracing_def entriesOf_def flagged_def commandOrEmpty_def extendsOf_def
          conj_disj_distribR conj_disj_distribL ex_disj_distrib)
  have p: "''A.m'' \<notin> set (pausesBeforeInputActions out)"
    unfolding iffs [THEN conjunct2]
    by (simp add: sampleTracing_def entriesOf_def flagged_def commandOrEmpty_def extendsOf_def
          conj_disj_distribR conj_disj_distribL ex_disj_distrib)
  show ?thesis
    by (intro conjI wf exI [of _ out] out a b g p)
qed


section \<open>Aliases for inherited commands\<close>

text \<open>
  Claim C4, as stated, fails.  In \<open>sampleOverride\<close> the channel \<open>B\<close> extends \<open>A\<close>, and \<open>A\<close>
  declares the command \<open>m\<close>; \<open>B\<close> declares a command \<open>m\<close> as well.  The generated file
  assigns the lookup \<open>tType('AMParams')\<close> to \<open>scheme.BMParams\<close> and then, in the pass over
  \<open>B\<close>, the validator of \<open>B\<close>'s own parameters, so the entry that the registry holds under
  \<open>BMParams\<close> is not the lookup of \<open>A\<close>'s entry.
\<close>

theorem redeclared_command_counterexample:
  "returned (generate 0 sampleOverride)
   \<and> validator_ts (the (resultOf (generate 0 sampleOverride)))
     = [validator_ts_head,
        ''  scheme.AMParams = tObject({'', ''    x: tString,'', ''  });'',
        ''  scheme.BMParams = tType('AMParams');'',
        ''  scheme.BMParams = tObject({'', ''    y: tNumber,'', ''  });'',
        ''\<newline>  return scheme;\<newline>}\<newline>'']
   \<and> registered (assignments 0 sampleOverride) ''BMParams''
     = Some ''tObject({\<newline>  y: tNumber,\<newline>})''"
proof -
  from generate_returns [OF wellFormed_sampleOverride order_refl]
  obtain out where out: "generate 0 sampleOverride = Some (Inr out)" ..
  have "validator_ts out = [validator_ts_head,
        ''  scheme.AMParams = tObject({'', ''    x: tString,'', ''  });'',
        ''  scheme.BMParams = tType('AMParams');'',
        ''  scheme.BMParams = tObject({'', ''    y: tNumber,'', ''  });'',
        ''\<newline>  return scheme;\<newline>}\<newline>'']"
    unfolding generate_validator [OF out] assignments_sampleOverride
    by (simp add: assignmentLines_def schemeLines_def)
  moreover have "registered (assignments 0 sampleOverride) ''BMParams''
     = Some ''tObject({\<newline>  y: tNumber,\<newline>})''"
    unfolding assignments_sampleOverride by (simp add: registered_def)
  ultimately show ?thesis
    by (simp add: out returned_def resultOf_def)
qed

text \<open>
  Claim C4, amended.  Let \<open>B\<close> be an interface with \<open>extends A\<close>, and \<open>m\<close> a command that
  the interface \<open>A\<close> declares, in a document whose events and commands have names that
  start with an ASCII character.  The generated registry is the preamble, the lines of the assignments, and the closing lines; among
  the assignments stands that of \<open>A\<close>'s validator (\<open>tOptional(tObject({}))\<close> when \<open>m\<close>
  declares no parameters, the object validator of its parameters otherwise) to
  \<open>A<M>Params\<close> and, after it, that of \<open>tType('A<M>Params')\<close> to \<open>B<M>Params\<close>.  When
  nothing else is assigned to \<open>B<M>Params\<close>, the lookup is the entry the registry holds
  under that name; and in every registry at run time in which the names that hold a
  lookup \<open>tType('X')\<close> are bound to \<open>tType\<close> of the registry and \<open>X\<close>, validating under
  \<open>B<M>Params\<close> gives what the entry under \<open>A<M>Params\<close> gives.  The keys of the document
  are distinct, as the keys of an object are.  On a well-formed document the generation
  returns, given fuel for the depth of the splices.
\<close>

theorem inherited_command_alias_registered:
  "(generate fuel protocol = Some (Inr out) \<and> distinct (map fst protocol)
      \<and> (A, parent) \<in> set protocol \<and> item_type parent = ''interface''
      \<and> (m, cmd) \<in> set (entriesOf (item_commands parent)) \<and> asciiTitles protocol
      \<and> (B, child) \<in> set protocol \<and> item_type child = ''interface''
      \<and> extendsOf child = Some A \<longrightarrow>
     (\<exists>title params pre mid post.
         titleCase m = Inr title
       \<and> objectType fuel (registriesOf protocol) (orEmpty (parameters (commandOrEmpty cmd)))
           [] False = Some (Inr params)
       \<and> validator_ts out = [validator_ts_head] @ assignmentLines (assignments fuel protocol)
           @ [''\<newline>  return scheme;\<newline>}\<newline>'']
       \<and> assignments fuel protocol
           = pre @ [(A @ title @ ''Params'',
                     if parameters (commandOrEmpty cmd) = None then ''tOptional(tObject({}))''
                     else scheme params)]
             @ mid @ [(B @ title @ ''Params'',
                       ''tType('' @ [CHR 0x27] @ A @ title @ ''Params'' @ [CHR 0x27] @ '')'')]
             @ post
       \<and> ((\<forall>s. (B @ title @ ''Params'', s) \<in> set (assignments fuel protocol) \<longrightarrow>
                s = ''tType('' @ [CHR 0x27] @ A @ title @ ''Params'' @ [CHR 0x27] @ '')'') \<longrightarrow>
            registered (assignments fuel protocol) (B @ title @ ''Params'')
              = Some (''tType('' @ [CHR 0x27] @ A @ title @ ''Params'' @ [CHR 0x27] @ '')'')
            \<and> ((\<forall>name X. registered (assignments fuel protocol) name
                     = Some (''tType('' @ [CHR 0x27] @ X @ [CHR 0x27] @ '')'') \<longrightarrow>
                   reg name = Some (tType reg X)) \<longrightarrow>
                 reg (B @ title @ ''Params'') = Some (tType reg (A @ title @ ''Params''))
                 \<and> (\<forall>v. reg (A @ title @ ''Params'') = Some v \<longrightarrow>
                      tType reg (A @ title @ ''Params'') arg path = v arg path)))))
   \<and> (wellFormed rank n protocol \<and> n \<le> fuel \<longrightarrow> (\<exists>out. generate fuel protocol = Some (Inr out)))"
proof (intro conjI impI)
  assume h: "generate fuel protocol = Some (Inr out) \<and> distinct (map fst protocol)
      \<and> (A, parent) \<in> set protocol \<and> item_type parent = ''interface''
      \<and> (m, cmd) \<in> set (entriesOf (item_commands parent)) \<and> asciiTitles protocol
      \<and> (B, child) \<in> set protocol \<and> item_type child = ''interface''
      \<and> extendsOf child = Some A"
  then have gen: "generate fuel protocol = Some (Inr out)" and d: "distinct (map fst protocol)"
    and a: "(A, parent) \<in> set protocol" "item_type parent = ''interface''"
       "(m, cmd) \<in> set (entriesOf (item_commands parent))"
    and b: "(B, child) \<in> set protocol" "item_type child = ''interface''" "extendsOf child = Some A"
    by simp_all
  from generate_assignments [OF gen a] obtain title params p1 p2 where
    t: "titleCase m = Inr title"
    and p: "objectType fuel (registriesOf protocol)
              (orEmpty (parameters (commandOrEmpty cmd))) [] False = Some (Inr params)"
    and s: "assignments fuel protocol
         = p1 @ commandAssignments fuel (registriesOf protocol) A (m, cmd) @ p2"
    by (elim exE conjE) (rule that)
  from commandAssignments_split [OF t p inherits_registered [OF d b]] obtain mid q where
    c: "commandAssignments fuel (registriesOf protocol) A (m, cmd)
     = (A @ title @ ''Params'', paramsScheme (commandOrEmpty cmd) params) # mid
       @ (B @ title @ ''Params'', lookupByName (A @ title @ ''Params'')) # q"
    by blast
  let ?lookup = "''tType('' @ [CHR 0x27] @ A @ title @ ''Params'' @ [CHR 0x27] @ '')''"
  let ?own = "if parameters (commandOrEmpty cmd) = None then ''tOptional(tObject({}))''
              else scheme params"
  have al: "lookupByName (A @ title @ ''Params'') = ?lookup"
    by (simp add: lookupByName_def quoted_def)
  have ow: "paramsScheme (commandOrEmpty cmd) params = ?own"
    by (simp add: paramsScheme_def)
  have split: "assignments fuel protocol
     = p1 @ [(A @ title @ ''Params'', ?own)] @ mid @ [(B @ title @ ''Params'', ?lookup)] @ (q @ p2)"
    unfolding s c al ow by simp
  have mem: "(B @ title @ ''Params'', ?lookup) \<in> set (assignments fuel protocol)"
    unfolding split by simp
  have last: "(\<forall>s. (B @ title @ ''Params'', s) \<in> set (assignments fuel protocol) \<longrightarrow> s = ?lookup) \<longrightarrow>
            registered (assignments fuel protocol) (B @ title @ ''Params'') = Some ?lookup
            \<and> ((\<forall>name X. registered (assignments fuel protocol) name
                     = Some (''tType('' @ [CHR 0x27] @ X @ [CHR 0x27] @ '')'') \<longrightarrow>
                   reg name = Some (tType reg X)) \<longrightarrow>
                 reg (B @ title @ ''Params'') = Some (tType reg (A @ title @ ''Params''))
                 \<and> (\<forall>v. reg (A @ title @ ''Params'') = Some v \<longrightarrow>
                      tType reg (A @ title @ ''Params'') arg path = v arg path))"
  proof (intro impI conjI allI)
    assume u: "\<forall>s. (B @ title @ ''Params'', s) \<in> set (assignments fuel protocol) \<longrightarrow> s = ?lookup"
    from registered_unique [OF mem u]
    show r: "registered (assignments fuel protocol) (B @ title @ ''Params'') = Some ?lookup" .
    assume "\<forall>name X. registered (assignments fuel protocol) name
                     = Some (''tType('' @ [CHR 0x27] @ X @ [CHR 0x27] @ '')'') \<longrightarrow>
                   reg name = Some (tType reg X)"
    from this [rule_format, of "B @ title @ ''Params''" "A @ title @ ''Params''"] r
    show "reg (B @ title @ ''Params'') = Some (tType reg (A @ title @ ''Params''))" by simp
  next
    fix v assume "reg (A @ title @ ''Params'') = Some v"
    then show "tType reg (A @ title @ ''Params'') arg path = v arg path"
      by (simp add: tType_def)
  qed
  show "\<exists>title params pre mid post.
         titleCase m = Inr title
       \<and> objectType fuel (registriesOf protocol) (orEmpty (parameters (commandOrEmpty cmd)))
           [] False = Some (Inr params)
       \<and> validator_ts out = [validator_ts_head] @ assignmentLines (assignments fuel protocol)
           @ [''\<newline>  return scheme;\<newline>}\<newline>'']
       \<and> assignments fuel protocol
           = pre @ [(A @ title @ ''Params'',
                     if parameters (commandOrEmpty cmd) = None then ''tOptional(tObject({}))''
                     else scheme params)]
             @ mid @ [(B @ title @ ''Params'',
                       ''tType('' @ [CHR 0x27] @ A @ title @ ''Params'' @ [CHR 0x27] @ '')'')]
             @ post
       \<and> ((\<forall>s. (B @ title @ ''Params'', s) \<in> set (assignments fuel protocol) \<longrightarrow>
                s = ''tType('' @ [CHR 0x27] @ A @ title @ ''Params'' @ [CHR 0x27] @ '')'') \<longrightarrow>
            registered (assignments fuel protocol) (B @ title @ ''Params'')
              = Some (''tType('' @ [CHR 0x27] @ A @ title @ ''Params'' @ [CHR 0x27] @ '')'')
            \<and> ((\<forall>name X. registered (assignments fuel protocol) name
                     = Some (''tType('' @ [CHR 0x27] @ X @ [CHR 0x27] @ '')'') \<longrightarrow>
                   reg name = Some (tType reg X)) \<longrightarrow>
                 reg (B @ title @ ''Params'') = Some (tType reg (A @ title @ ''Params''))
                 \<and> (\<forall>v. reg (A @ title @ ''Params'') = Some v \<longrightarrow>
                      tType reg (A @ title @ ''Params'') arg path = v arg path)))"
    by (rule exI [of _ title], rule exI [of _ params], rule exI [of _ p1], rule exI [of _ mid],
        rule exI [of _ "q @ p2"])
       (intro conjI t p generate_validator [OF gen] split last)
next
  assume "wellFormed rank n protocol \<and> n \<le> fuel"
  then show "\<exists>out. generate fuel protocol = Some (Inr out)"
    using generate_returns by blast
qed

text \<open>
  On \<open>sampleInherited\<close>, with fuel 1 for the splice in the parameters of \<open>A.foo\<close>.
\<close>

theorem inherited_command_alias_registered_witness:
  "wellFormed (\<lambda>name. 0) 1 sampleInherited \<and> distinct (map fst sampleInherited)
   \<and> asciiTitles sampleInherited
   \<and> (\<exists>out. generate 1 sampleInherited = Some (Inr out)
        \<and> validator_ts out
          = [validator_ts_head,
             ''  scheme.AFooParams = tObject({'', ''    x: tString,'',
             ''    label: tOptional(tString),'', ''  });'',
             ''  scheme.BFooParams = tType('AFooParams');'',
             ''\<newline>  return scheme;\<newline>}\<newline>''])
   \<and> registered (assignments 1 sampleInherited) ''BFooParams'' = Some ''tType('AFooParams')''
   \<and> sampleRegistry ''BFooParams'' = Some (tType sampleRegistry ''AFooParams'')
   \<and> tType sampleRegistry ''AFooParams'' (Object [(''x'', String ''hi'')]) ''params''
       = tObject [(''x'', tString), (''label'', tOptional tString)]
           (Object [(''x'', String ''hi'')]) ''params''"
proof -
  let ?cmd = "Some \<lparr>parameters = Some [(''x'', Str ''string''), (''$mixin'', Str ''M'')],
            returns = None, tracing = None\<rparr>"
  let ?A = "\<lparr>item_type = ''interface'', item_extends = None, item_initializer = None,
         item_events = None, item_commands = Some [(''foo'', ?cmd)],
         item_properties = None, item_literals = None\<rparr>"
  let ?B = "\<lparr>item_type = ''interface'', item_extends = Some ''A'', item_initializer = None,
         item_events = None, item_commands = None, item_properties = None,
         item_literals = None\<rparr>"
  note claim = inherited_command_alias_registered [where fuel = 1 and protocol = sampleInherited
      and A = "''A''" and parent = ?A and m = "''foo''" and cmd = ?cmd and B = "''B''"
      and child = ?B and reg = sampleRegistry and arg = "Object [(''x'', String ''hi'')]"
      and path = "''params''" and rank = "\<lambda>name. 0" and n = 1]
  have wf: "wellFormed (\<lambda>name. 0) 1 sampleInherited" by (rule wellFormed_sampleInherited)
  have "\<exists>out. generate 1 sampleInherited = Some (Inr out)"
    by (rule claim [THEN conjunct2, rule_format, OF conjI [OF wf order_refl]])
  then obtain out where out: "generate 1 sampleInherited = Some (Inr out)" ..
  have d: "distinct (map fst sampleInherited)" by (simp add: sampleInherited_def)
  have ai: "asciiTitles sampleInherited"
    by (simp add: asciiTitles_def sampleInherited_def entriesOf_def asciiInitial_def isAscii_def)
  have a: "(''A'', ?A) \<in> set sampleInherited" "item_type ?A = ''interface''"
    "(''foo'', ?cmd) \<in> set (entriesOf (item_commands ?A))"
    by (simp_all add: sampleInherited_def entriesOf_def)
  have b: "(''B'', ?B) \<in> set sampleInherited" "item_type ?B = ''interface''"
    "extendsOf ?B = Some ''A''"
    by (simp_all add: sampleInherited_def extendsOf_def)
  from claim [THEN conjunct1, rule_format, of out, OF conjI [OF out conjI [OF d conjI [OF a(1)
      conjI [OF a(2) conjI [OF a(3) conjI [OF ai conjI [OF b(1) conjI [OF b(2) b(3)]]]]]]]]]
  obtain title where t: "titleCase ''foo'' = Inr title"
    and v: "validator_ts out = [validator_ts_head]
           @ assignmentLines (assignments 1 sampleInherited)
           @ [''\<newline>  return scheme;\<newline>}\<newline>'']"
    and u: "(\<forall>s. (''B'' @ title @ ''Params'', s) \<in> set (assignments 1 sampleInherited) \<longrightarrow>
                s = ''tType('' @ [CHR 0x27] @ ''A'' @ title @ ''Params'' @ [CHR 0x27] @ '')'') \<longrightarrow>
            registered (assignments 1 sampleInherited) (''B'' @ title @ ''Params'')
              = Some (''tType('' @ [CHR 0x27] @ ''A'' @ title @ ''Params'' @ [CHR 0x27] @ '')'')
            \<and> ((\<forall>name X. registered (assignments 1 sampleInherited) name
                     = Some (''tType('' @ [CHR 0x27] @ X @ [CHR 0x27] @ '')'') \<longrightarrow>
                   sampleRegistry name = Some (tType sampleRegistry X)) \<longrightarrow>
                 sampleRegistry (''B'' @ title @ ''Params'')
                   = Some (tType sampleRegistry (''A'' @ title @ ''Params''))
                 \<and> (\<forall>v. sampleRegistry (''A'' @ title @ ''Params'') = Some v \<longrightarrow>
                      tType sampleRegistry (''A'' @ title @ ''Params'')
                        (Object [(''x'', String ''hi'')]) ''params''
                      = v (Object [(''x'', String ''hi'')]) ''params''))"
    by (elim exE conjE) (rule that)
  from t have title: "title = ''Foo''" by (simp add: titleCase_def toUpperCase_def)
  have only: "\<forall>s. (''BFooParams'', s) \<in> set (assignments 1 sampleInherited) \<longrightarrow>
                s = ''tType('AFooParams')''"
    unfolding assignments_sampleInherited by simp
  from u [unfolded title] only have
    r: "registered (assignments 1 sampleInherited) ''BFooParams'' = Some ''tType('AFooParams')''"
    and w: "(\<forall>name X. registered (assignments 1 sampleInherited) name
                     = Some (''tType('' @ [CHR 0x27] @ X @ [CHR 0x27] @ '')'') \<longrightarrow>
                   sampleRegistry name = Some (tType sampleRegistry X)) \<longrightarrow>
                 sampleRegistry ''BFooParams'' = Some (tType sampleRegistry ''AFooParams'')
                 \<and> (\<forall>v. sampleRegistry ''AFooParams'' = Some v \<longrightarrow>
                      tType sampleRegistry ''AFooParams''
                        (Object [(''x'', String ''hi'')]) ''params''
                      = v (Object [(''x'', String ''hi'')]) ''params'')"
    by simp_all
  from w sampleRegistry_realises have
    rb: "sampleRegistry ''BFooParams'' = Some (tType sampleRegistry ''AFooParams'')"
    and ra: "\<forall>v. sampleRegistry ''AFooParams'' = Some v \<longrightarrow>
                      tType sampleRegistry ''AFooParams''
                        (Object [(''x'', String ''hi'')]) ''params''
                      = v (Object [(''x'', String ''hi'')]) ''params''"
    by blast+
  have sa: "sampleRegistry ''AFooParams''
      = Some (tObject [(''x'', tString), (''label'', tOptional tString)])"
    by (simp add: sampleRegistry_def)
  have lines: "validator_ts out
          = [validator_ts_head,
             ''  scheme.AFooParams = tObject({'', ''    x: tString,'',
             ''    label: tOptional(tString),'', ''  });'',
             ''  scheme.BFooParams = tType('AFooParams');'',
             ''\<newline>  return scheme;\<newline>}\<newline>'']"
    unfolding v assignments_sampleInherited by (simp add: assignmentLines_def schemeLines_def)
  show ?thesis
    by (intro conjI wf d ai exI [of _ out] out lines r rb ra [rule_format, OF sa])
qed


section \<open>The validator of a command's parameters and the absent value\<close>

text \<open>
  Claim C7, as stated, fails.  In \<open>sampleOptional\<close> the command \<open>foo\<close> declares
  parameters, the properties of the mixin \<open>M\<close>, and the one property there is is optional,
  so \<open>foo\<close> has no required parameter; the validator registered for its parameters is
  \<open>tObject({ label: tOptional(tString) })\<close>, not wrapped in \<open>tOptional\<close>, and it rejects
  the absent value.
\<close>

theorem all_optional_parameters_counterexample:
  "returned (generate 1 sampleOptional)
   \<and> validator_ts (the (resultOf (generate 1 sampleOptional)))
     = [validator_ts_head,
        ''  scheme.CFooParams = tObject({'', ''    label: tOptional(tString),'', ''  });'',
        ''  scheme.CBarParams = tOptional(tObject({}));'',
        ''\<newline>  return scheme;\<newline>}\<newline>'']
   \<and> registered (assignments 1 sampleOptional) ''CFooParams''
     = Some ''tObject({\<newline>  label: tOptional(tString),\<newline>})''
   \<and> \<not> accepts (tObject [(''label'', tOptional tString)]) Undefined ''params''"
proof -
  from generate_returns [OF wellFormed_sampleOptional order_refl]
  obtain out where out: "generate 1 sampleOptional = Some (Inr out)" ..
  have "validator_ts out = [validator_ts_head,
        ''  scheme.CFooParams = tObject({'', ''    label: tOptional(tString),'', ''  });'',
        ''  scheme.CBarParams = tOptional(tObject({}));'',
        ''\<newline>  return scheme;\<newline>}\<newline>'']"
    unfolding generate_validator [OF out] assignments_sampleOptional
    by (simp add: assignmentLines_def schemeLines_def)
  moreover have "registered (assignments 1 sampleOptional) ''CFooParams''
     = Some ''tObject({\<newline>  label: tOptional(tString),\<newline>})''"
    unfolding assignments_sampleOptional by (simp add: registered_def)
  moreover have "\<not> accepts (tObject [(''label'', tOptional tString)]) Undefined ''params''"
    by (simp add: accepts_def tObject_def)
  ultimately show ?thesis
    unfolding out by (simp add: returned_def resultOf_def)
qed

text \<open>
  Claim C7, amended.  For every command of every interface, in a document whose events
  and commands have names that start with an ASCII character, the generated registry
  assigns to the name of its parameters type \<open>tOptional(tObject({}))\<close>, which accepts
  the absent value, exactly when the command declares no parameters; otherwise it assigns
  the object validator of the declared parameters, which starts with \<open>tObject(\<close> and
  rejects the absent value whatever the optionality of the properties.  When nothing
  else is assigned to the name (no lookup for a command inherited under the same name,
  no other entry of the same name), that validator is the entry the registry holds at
  run time.  The signature of the method marks \<open>params\<close> optional under the same
  condition, and requires it otherwise.  On a well-formed document the generation
  returns, given fuel for the depth of the splices.
\<close>

theorem params_validator_optional_iff_undeclared:
  "(generate fuel protocol = Some (Inr out)
      \<and> (C, item) \<in> set protocol \<and> item_type item = ''interface''
      \<and> (m, cmd) \<in> set (entriesOf (item_commands item)) \<and> asciiTitles protocol \<longrightarrow>
     (\<exists>title params.
         titleCase m = Inr title
       \<and> objectType fuel (registriesOf protocol) (orEmpty (parameters (commandOrEmpty cmd)))
           [] False = Some (Inr params)
       \<and> startsWith (scheme params) ''tObject(''
       \<and> validator_ts out = [validator_ts_head] @ assignmentLines (assignments fuel protocol)
           @ [''\<newline>  return scheme;\<newline>}\<newline>'']
       \<and> (C @ title @ ''Params'',
            if parameters (commandOrEmpty cmd) = None then ''tOptional(tObject({}))''
            else scheme params) \<in> set (assignments fuel protocol)
       \<and> ((\<forall>s. (C @ title @ ''Params'', s) \<in> set (assignments fuel protocol) \<longrightarrow>
                s = (if parameters (commandOrEmpty cmd) = None then ''tOptional(tObject({}))''
                     else scheme params)) \<longrightarrow>
            registered (assignments fuel protocol) (C @ title @ ''Params'')
              = Some (if parameters (commandOrEmpty cmd) = None then ''tOptional(tObject({}))''
                      else scheme params))
       \<and> (''  '' @ m @ ''(params'' @ (if parameters (commandOrEmpty cmd) = None then ''?'' else [])
            @ '': '' @ C @ title @ ''Params, metadata?: Metadata): Promise<'' @ C @ title
            @ ''Result>;'') \<in> set (channels_ts out)))
   \<and> accepts (tOptional v) Undefined path
   \<and> \<not> accepts (tObject s) Undefined path
   \<and> (wellFormed rank n protocol \<and> n \<le> fuel \<longrightarrow> (\<exists>out. generate fuel protocol = Some (Inr out)))"
proof (intro conjI impI)
  assume h: "generate fuel protocol = Some (Inr out)
      \<and> (C, item) \<in> set protocol \<and> item_type item = ''interface''
      \<and> (m, cmd) \<in> set (entriesOf (item_commands item)) \<and> asciiTitles protocol"
  then have gen: "generate fuel protocol = Some (Inr out)"
    and c: "(C, item) \<in> set protocol" "item_type item = ''interface''"
       "(m, cmd) \<in> set (entriesOf (item_commands item))"
    by simp_all
  from generate_assignments [OF gen c] obtain title params p1 p2 where
    t: "titleCase m = Inr title"
    and p: "objectType fuel (registriesOf protocol)
              (orEmpty (parameters (commandOrEmpty cmd))) [] False = Some (Inr params)"
    and l: "methodSignature m (commandOrEmpty cmd) (C @ title @ ''Params'')
              (C @ title @ ''Result'') \<in> set (channels_ts out)"
    and s: "assignments fuel protocol
         = p1 @ commandAssignments fuel (registriesOf protocol) C (m, cmd) @ p2"
    by (elim exE conjE) (rule that)
  let ?own = "if parameters (commandOrEmpty cmd) = None then ''tOptional(tObject({}))''
              else scheme params"
  have ow: "paramsScheme (commandOrEmpty cmd) params = ?own"
    by (simp add: paramsScheme_def)
  have mem: "(C @ title @ ''Params'', ?own) \<in> set (assignments fuel protocol)"
    unfolding s by (simp add: commandAssignments_def t p ow)
  have last: "(\<forall>s. (C @ title @ ''Params'', s) \<in> set (assignments fuel protocol) \<longrightarrow> s = ?own) \<longrightarrow>
            registered (assignments fuel protocol) (C @ title @ ''Params'') = Some ?own"
    using registered_unique [OF mem] by blast
  have sig: "(''  '' @ m @ ''(params'' @ (if parameters (commandOrEmpty cmd) = None then ''?'' else [])
          @ '': '' @ C @ title @ ''Params, metadata?: Metadata): Promise<'' @ C @ title
          @ ''Result>;'') \<in> set (channels_ts out)"
    using l by (cases "parameters (commandOrEmpty cmd)") (simp_all add: methodSignature_def)
  show "\<exists>title params.
         titleCase m = Inr title
       \<and> objectType fuel (registriesOf protocol) (orEmpty (parameters (commandOrEmpty cmd)))
           [] False = Some (Inr params)
       \<and> startsWith (scheme params) ''tObject(''
       \<and> validator_ts out = [validator_ts_head] @ assignmentLines (assignments fuel protocol)
           @ [''\<newline>  return scheme;\<newline>}\<newline>'']
       \<and> (C @ title @ ''Params'',
            if parameters (commandOrEmpty cmd) = None then ''tOptional(tObject({}))''
            else scheme params) \<in> set (assignments fuel protocol)
       \<and> ((\<forall>s. (C @ title @ ''Params'', s) \<in> set (assignments fuel protocol) \<longrightarrow>
                s = (if parameters (commandOrEmpty cmd) = None then ''tOptional(tObject({}))''
                     else scheme params)) \<longrightarrow>
            registered (assignments fuel protocol) (C @ title @ ''Params'')
              = Some (if parameters (commandOrEmpty cmd) = None then ''tOptional(tObject({}))''
                      else scheme params))
       \<and> (''  '' @ m @ ''(params'' @ (if parameters (commandOrEmpty cmd) = None then ''?'' else [])
            @ '': '' @ C @ title @ ''Params, metadata?: Metadata): Promise<'' @ C @ title
            @ ''Result>;'') \<in> set (channels_ts out)"
    by (rule exI [of _ title], rule exI [of _ params])
       (intro conjI t p objectType_scheme_prefix [OF p] generate_validator [OF gen] mem last sig)
next
  show "accepts (tOptional v) Undefined path" by (simp add: accepts_def tOptional_def)
next
  show "\<not> accepts (tObject s) Undefined path" by (simp add: accepts_def tObject_def)
next
  assume "wellFormed rank n protocol \<and> n \<le> fuel"
  then show "\<exists>out. generate fuel protocol = Some (Inr out)"
    using generate_returns by blast
qed

text \<open>
  On \<open>sampleOptional\<close>, with fuel 1 for the splice: \<open>bar\<close> declares no parameters.
\<close>

theorem params_validator_optional_iff_undeclared_witness:
  "wellFormed (\<lambda>name. 0) 1 sampleOptional \<and> asciiTitles sampleOptional
   \<and> (\<exists>out. generate 1 sampleOptional = Some (Inr out)
        \<and> ''  bar(params?: CBarParams, metadata?: Metadata): Promise<CBarResult>;''
            \<in> set (channels_ts out))
   \<and> registered (assignments 1 sampleOptional) ''CBarParams'' = Some ''tOptional(tObject({}))''
   \<and> accepts (tOptional (tObject [])) Undefined ''params''
   \<and> \<not> accepts (tObject [(''label'', tOptional tString)]) Undefined ''params''"
proof -
  let ?cmd = "Some \<lparr>parameters = Some [(''$mixin'', Str ''M'')], returns = None, tracing = None\<rparr>"
  let ?C = "\<lparr>item_type = ''interface'', item_extends = None, item_initializer = None,
         item_events = None, item_commands = Some [(''foo'', ?cmd), (''bar'', None)],
         item_properties = None, item_literals = None\<rparr>"
  note claim = params_validator_optional_iff_undeclared [where fuel = 1
      and protocol = sampleOptional and C = "''C''" and item = ?C and m = "''bar''"
      and cmd = None and path = "''params''" and rank = "\<lambda>name. 0" and n = 1]
  have wf: "wellFormed (\<lambda>name. 0) 1 sampleOptional" by (rule wellFormed_sampleOptional)
  have "\<exists>out. generate 1 sampleOptional = Some (Inr out)"
    by (rule claim [THEN conjunct2, THEN conjunct2, THEN conjunct2, rule_format,
          OF conjI [OF wf order_refl]])
  then obtain out where out: "generate 1 sampleOptional = Some (Inr out)" ..
  have ai: "asciiTitles sampleOptional"
    by (simp add: asciiTitles_def sampleOptional_def entriesOf_def asciiInitial_def isAscii_def)
  have c: "(''C'', ?C) \<in> set sampleOptional" "item_type ?C = ''interface''"
    "(''bar'', None) \<in> set (entriesOf (item_commands ?C))"
    by (simp_all add: sampleOptional_def entriesOf_def)
  from claim [THEN conjunct1, rule_format, of out,
      OF conjI [OF out conjI [OF c(1) conjI [OF c(2) conjI [OF c(3) ai]]]]]
  obtain title params where t: "titleCase ''bar'' = Inr title"
    and "objectType 1 (registriesOf sampleOptional) (orEmpty (parameters (commandOrEmpty None)))
           [] False = Some (Inr params)"
    and u: "(\<forall>s. (''C'' @ title @ ''Params'', s) \<in> set (assignments 1 sampleOptional) \<longrightarrow>
                s = (if parameters (commandOrEmpty None) = None then ''tOptional(tObject({}))''
                     else scheme params)) \<longrightarrow>
            registered (assignments 1 sampleOptional) (''C'' @ title @ ''Params'')
              = Some (if parameters (commandOrEmpty None) = None then ''tOptional(tObject({}))''
                      else scheme params)"
    and l: "(''  '' @ ''bar'' @ ''(params''
            @ (if parameters (commandOrEmpty None) = None then ''?'' else [])
            @ '': '' @ ''C'' @ title @ ''Params, metadata?: Metadata): Promise<'' @ ''C'' @ title
            @ ''Result>;'') \<in> set (channels_ts out)"
    by (elim exE conjE) (rule that)
  from t have title: "title = ''Bar''" by (simp add: titleCase_def toUpperCase_def)
  have only: "\<forall>s. (''CBarParams'', s) \<in> set (assignments 1 sampleOptional) \<longrightarrow>
                s = ''tOptional(tObject({}))''"
    unfolding assignments_sampleOptional by simp
  from u [unfolded title] only have
    r: "registered (assignments 1 sampleOptional) ''CBarParams'' = Some ''tOptional(tObject({}))''"
    by (simp add: commandOrEmpty_def)
  from l have sig: "''  bar(params?: CBarParams, metadata?: Metadata): Promise<CBarResult>;''
            \<in> set (channels_ts out)"
    by (simp add: title commandOrEmpty_def)
  show ?thesis
    by (intro conjI wf ai exI [of _ out] out sig r
          claim [where v = "tObject []", THEN conjunct2, THEN conjunct1]
          claim [where s = "[(''label'', tOptional tString)]", THEN conjunct2, THEN conjunct2,
                 THEN conjunct1])
qed


section \<open>References to entities that the document does not declare\<close>

text \<open>
  Claim C1, as stated, fails.  The object \<open>O\<close> has a property of type \<open>Missing\<close>, which the
  document does not declare; the generation returns, and the registry holds the lazy
  lookup \<open>tType('Missing')\<close> for the property.
\<close>

theorem unknown_reference_counterexample:
  "returned (generate 0 [(''O'', \<lparr>item_type = ''object'', item_extends = None,
       item_initializer = None, item_events = None, item_commands = None,
       item_properties = Some [(''x'', Str ''Missing'')], item_literals = None\<rparr>)])
   \<and> ''Missing'' \<notin> fst ` set [(''O'', \<lparr>item_type = ''object'', item_extends = None,
       item_initializer = None, item_events = None, item_commands = None,
       item_properties = Some [(''x'', Str ''Missing'')], item_literals = None\<rparr>)]
   \<and> validator_ts (the (resultOf (generate 0 [(''O'', \<lparr>item_type = ''object'',
       item_extends = None, item_initializer = None, item_events = None, item_commands = None,
       item_properties = Some [(''x'', Str ''Missing'')], item_literals = None\<rparr>)])))
     = [validator_ts_head, ''  scheme.O = tObject({'', ''    x: tType('Missing'),'', ''  });'',
        ''\<newline>  return scheme;\<newline>}\<newline>'']"
  by (simp add: generate_unknown_reference returned_def resultOf_def)

text \<open>
  Claim C1, amended.  No type token makes the resolution fail.  A token that is neither
  a built-in type, nor a declared channel, nor \<open>Channel\<close> resolves to its own name and
  to the lazy lookup \<open>tType('name')\<close>, whether or not the document declares the name; the
  lookup throws \<open>unknown type\<close> when a value is validated and the registry has no such
  entry.  A splice of a mixin that the document does not declare throws a \<open>TypeError\<close>,
  and a run whose generation throws leaves the files as they were.
\<close>

theorem unknown_reference_resolves_lazily:
  "(\<exists>res. inlineType fuel r (Str token) indent wrapEnums = Some (Inr res))
   \<and> (name \<notin> set [''binary'', ''json'', ''string'', ''boolean'', ''number'', ''undefined'',
                    ''Channel'']
        \<and> name \<notin> channels r \<and> \<not> endsWith name ''?'' \<longrightarrow>
        inlineType fuel r (Str name) indent wrapEnums
          = Some (Inr \<lparr>ts = name, scheme = ''tType('' @ quoted name @ '')'', optional = False\<rparr>))
   \<and> (registry name = None \<longrightarrow>
        tType registry name arg path
          = Inl (ValidationError (path @ '': unknown type '' @ [CHR 0x22] @ name @ [CHR 0x22])))
   \<and> (startsWith key ''$mixin'' \<and> mixins r name = None \<longrightarrow>
        properties fuel r (Some ((key, Str name) # rest)) indent onlyOptional = Some (Inl TypeError))
   \<and> (generate fuel protocol = Some (Inl e) \<longrightarrow>
        generate_channels fuel protocol fs = Some (fs, Inl e))"
proof (intro conjI)
  show "\<exists>res. inlineType fuel r (Str token) indent wrapEnums = Some (Inr res)"
    by (rule inlineType_token_returns)
  show "name \<notin> set [''binary'', ''json'', ''string'', ''boolean'', ''number'', ''undefined'',
                    ''Channel'']
        \<and> name \<notin> channels r \<and> \<not> endsWith name ''?'' \<longrightarrow>
        inlineType fuel r (Str name) indent wrapEnums
          = Some (Inr \<lparr>ts = name, scheme = ''tType('' @ quoted name @ '')'', optional = False\<rparr>)"
    by (simp add: Let_def)
  show "registry name = None \<longrightarrow>
        tType registry name arg path
          = Inl (ValidationError (path @ '': unknown type '' @ [CHR 0x22] @ name @ [CHR 0x22]))"
    by (simp add: tType_def)
  show "startsWith key ''$mixin'' \<and> mixins r name = None \<longrightarrow>
        properties fuel r (Some ((key, Str name) # rest)) indent onlyOptional = Some (Inl TypeError)"
    by simp
  show "generate fuel protocol = Some (Inl e) \<longrightarrow>
        generate_channels fuel protocol fs = Some (fs, Inl e)"
    by (simp add: generate_channels_def)
qed

theorem unknown_reference_resolves_lazily_witness:
  "inlineType 0 (registriesOf []) (Str ''Missing'') [] False
     = Some (Inr \<lparr>ts = ''Missing'', scheme = ''tType('Missing')'', optional = False\<rparr>)
   \<and> tType (Map.empty :: string \<rightharpoonup> validator) ''Missing'' Undefined ''params''
     = Inl (ValidationError ''params: unknown type \"Missing\"'')
   \<and> properties 0 (registriesOf []) (Some [(''$mixin'', Str ''Missing'')]) [] False
     = Some (Inl TypeError)
   \<and> generate_channels 0 [(''O'', \<lparr>item_type = ''object'', item_extends = None,
       item_initializer = None, item_events = None, item_commands = None,
       item_properties = Some [(''$mixin'', Str ''Missing'')], item_literals = None\<rparr>)]
       [channels_path \<mapsto> ''a'', validator_path \<mapsto> ''b'']
     = Some ([channels_path \<mapsto> ''a'', validator_path \<mapsto> ''b''], Inl TypeError)"
  using unknown_reference_resolves_lazily [of 0 "registriesOf []" "''Missing''" "[]" False
      "''Missing''" "Map.empty :: string \<rightharpoonup> validator" Undefined "''params''" "''$mixin''" "[]" False
      "[(''O'', \<lparr>item_type = ''object'', item_extends = None,
       item_initializer = None, item_events = None, item_commands = None,
       item_properties = Some [(''$mixin'', Str ''Missing'')], item_literals = None\<rparr>)]"
      TypeError "[channels_path \<mapsto> ''a'', validator_path \<mapsto> ''b'']"]
    generate_unknown_mixin
  by (simp add: registriesOf_def endsWith_def startsWith_def quoted_def)

section \<open>The options of a command\<close>




section \<open>The expansion of the splices\<close>




section \<open>The output writer and the end of the run\<close>

lemma paths_differ: "channels_path \<noteq> validator_path"
  by (simp add: channels_path_def validator_path_def)

lemma writeBoth_cases:
  "writeBoth c v fs =
     (case fs channels_path of
        None \<Rightarrow> (fs, Inl (ENOENT channels_path))
      | Some a \<Rightarrow>
          (case fs validator_path of
             None \<Rightarrow> (fs(channels_path \<mapsto> c), Inl (ENOENT validator_path))
           | Some b \<Rightarrow> (fs(channels_path \<mapsto> c, validator_path \<mapsto> v),
                        Inr (if a = c \<and> b = v then 0 else 1))))"
  using paths_differ
  by (auto simp: writeFile_def writeBoth_def fun_upd_idem fun_upd_twist split: option.splits)

lemma generate_empty_document:
  "\<exists>out. generate fuel [] = Some (Inr out) \<and> hd (channels_ts out) = channels_ts_head
     \<and> tl (channels_ts out) \<noteq> []"
  by (simp add: generate_def Let_def andThen_def traits_def push_def registriesOf_def
        derivedClasses_def)

lemma generate_object_without_properties:
  "generate 0 [(''O'', \<lparr>item_type = ''object'', item_extends = None, item_initializer = None,
       item_events = None, item_commands = None, item_properties = None,
       item_literals = None\<rparr>)] = Some (Inl TypeError)"
  by (simp add: generate_def Let_def andThen_def registriesOf_def derivedClasses_def objectItem_def
        objectType_def tsLine_def schemeLine_def)

lemma channels_ts_head_first: "channels_ts_head \<noteq> [] \<and> hd channels_ts_head = CHR ''/''"
  by (simp add: channels_ts_head_def licence_def)

lemma join_first: "xs \<noteq> [] \<Longrightarrow> hd xs \<noteq> [] \<Longrightarrow> hd (join sep xs) = hd (hd xs)"
  by (induction sep xs rule: join.induct) auto

text \<open>
  Claim C8.  \<open>writeFile\<close> on an existing file compares the content and writes only when it
  differs, setting \<open>hasChanges\<close>; a missing target aborts the run; the exit status is 0
  when both files already held the generated contents, and 1 when at least one of them
  was rewritten.
\<close>

theorem writer_contract:
  "(\<forall>existing. fs filePath = Some existing \<longrightarrow>
      writeFile filePath content (fs, changed) =
        Inr (if existing = content then (fs, changed) else (fs(filePath \<mapsto> content), True)))
   \<and> (fs channels_path = None \<longrightarrow> writeBoth c v fs = (fs, Inl (ENOENT channels_path)))
   \<and> (fs channels_path \<noteq> None \<and> fs validator_path = None \<longrightarrow>
        snd (writeBoth c v fs) = Inl (ENOENT validator_path))
   \<and> (fs channels_path = Some c \<and> fs validator_path = Some v \<longrightarrow> writeBoth c v fs = (fs, Inr 0))
   \<and> (\<forall>a b. fs channels_path = Some a \<and> fs validator_path = Some b \<and> (a \<noteq> c \<or> b \<noteq> v) \<longrightarrow>
        writeBoth c v fs = (fs(channels_path \<mapsto> c, validator_path \<mapsto> v), Inr 1))"
  using paths_differ
  by (auto simp: writeFile_def writeBoth_def fun_upd_idem fun_upd_twist split: option.splits)

theorem writer_contract_witness:
  "writeBoth ''new'' ''same'' Map.empty = (Map.empty, Inl (ENOENT channels_path))
   \<and> snd (writeBoth ''new'' ''same'' [channels_path \<mapsto> ''old'']) = Inl (ENOENT validator_path)
   \<and> writeBoth ''new'' ''same'' [channels_path \<mapsto> ''new'', validator_path \<mapsto> ''same'']
       = ([channels_path \<mapsto> ''new'', validator_path \<mapsto> ''same''], Inr 0)
   \<and> writeBoth ''new'' ''same'' [channels_path \<mapsto> ''old'', validator_path \<mapsto> ''same'']
       = ([channels_path \<mapsto> ''new'', validator_path \<mapsto> ''same''], Inr 1)
   \<and> writeFile channels_path ''new'' ([channels_path \<mapsto> ''old''], False)
       = Inr ([channels_path \<mapsto> ''new''], True)"
  using writer_contract [of Map.empty channels_path "''new''" False "''new''" "''same''"]
        writer_contract [of "[channels_path \<mapsto> ''old'']" channels_path "''new''" False
           "''new''" "''same''"]
        writer_contract [of "[channels_path \<mapsto> ''new'', validator_path \<mapsto> ''same'']"
           channels_path "''new''" False "''new''" "''same''"]
        writer_contract [of "[channels_path \<mapsto> ''old'', validator_path \<mapsto> ''same'']"
           channels_path "''new''" False "''new''" "''same''"]
        paths_differ
  by (simp add: fun_upd_twist)

text \<open>
  Claim C2, as stated, fails.  With a stale \<open>channels.ts\<close> and no \<open>validator.ts\<close>, the run
  on the empty document aborts on the second target after it has rewritten the first.
\<close>

theorem partial_output_counterexample:
  "generate_channels 0 [] [channels_path \<mapsto> ''stale''] \<noteq> None
   \<and> snd (the (generate_channels 0 [] [channels_path \<mapsto> ''stale''])) = Inl (ENOENT validator_path)
   \<and> fst (the (generate_channels 0 [] [channels_path \<mapsto> ''stale''])) channels_path \<noteq> Some ''stale''
   \<and> fst (the (generate_channels 0 [] [channels_path \<mapsto> ''stale''])) validator_path = None"
proof -
  obtain out where out: "generate 0 [] = Some (Inr out)" "hd (channels_ts out) = channels_ts_head"
      "tl (channels_ts out) \<noteq> []"
    using generate_empty_document by blast
  then have "channels_ts out \<noteq> []" by auto
  then have "hd (join ''\<newline>'' (channels_ts out)) = CHR ''/''"
    using out channels_ts_head_first by (simp add: join_first)
  then have "join ''\<newline>'' (channels_ts out) \<noteq> ''stale''" by auto
  then show ?thesis
    using out paths_differ
    by (simp add: generate_channels_def writeBoth_def writeFile_def)
qed

text \<open>
  Claim C2, amended.  A run that aborts for any reason other than a missing
  \<open>validator.ts\<close> leaves the file system as it was; a run that exits leaves both files
  with the generated contents and touches nothing else; and when only \<open>validator.ts\<close> is
  missing the run aborts with \<open>channels.ts\<close> already holding its generated content.
\<close>

theorem abort_before_second_target_writes_nothing:
  "(generate_channels fuel protocol fs = Some (fs', Inl e) \<and> e \<noteq> ENOENT validator_path
      \<longrightarrow> fs' = fs)
   \<and> (generate_channels fuel protocol fs = Some (fs', Inr status) \<longrightarrow>
        (\<exists>out. generate fuel protocol = Some (Inr out)
           \<and> fs' = fs(channels_path \<mapsto> join ''\<newline>'' (channels_ts out),
                       validator_path \<mapsto> join ''\<newline>'' (validator_ts out))))
   \<and> (generate fuel protocol = Some (Inr out) \<and> fs channels_path \<noteq> None
        \<and> fs validator_path = None \<longrightarrow>
        generate_channels fuel protocol fs
          = Some (fs(channels_path \<mapsto> join ''\<newline>'' (channels_ts out)),
                  Inl (ENOENT validator_path)))"
proof (cases "generate fuel protocol")
  case None
  then show ?thesis by (simp add: generate_channels_def)
next
  case (Some res)
  show ?thesis
  proof (cases res)
    case (Inl err)
    with Some show ?thesis by (auto simp: generate_channels_def)
  next
    case (Inr out')
    with Some show ?thesis
      by (auto simp: generate_channels_def writeBoth_cases split: option.splits)
  qed
qed

theorem abort_before_second_target_writes_nothing_witness:
  "generate_channels 0 [(''O'', \<lparr>item_type = ''object'', item_extends = None,
       item_initializer = None, item_events = None, item_commands = None, item_properties = None,
       item_literals = None\<rparr>)] [channels_path \<mapsto> ''a'']
     = Some ([channels_path \<mapsto> ''a''], Inl TypeError)
   \<and> (\<exists>out status. generate 0 [] = Some (Inr out)
        \<and> generate_channels 0 [] [channels_path \<mapsto> ''a'', validator_path \<mapsto> ''b'']
            = Some ([channels_path \<mapsto> join ''\<newline>'' (channels_ts out),
                     validator_path \<mapsto> join ''\<newline>'' (validator_ts out)], Inr status)
        \<and> generate_channels 0 [] [channels_path \<mapsto> ''a'']
            = Some ([channels_path \<mapsto> join ''\<newline>'' (channels_ts out)],
                    Inl (ENOENT validator_path)))"
proof -
  let ?bad = "[(''O'', \<lparr>item_type = ''object'', item_extends = None,
       item_initializer = None, item_events = None, item_commands = None, item_properties = None,
       item_literals = None\<rparr>)]"
  have "\<exists>fs'. generate_channels 0 ?bad [channels_path \<mapsto> ''a''] = Some (fs', Inl TypeError)"
    by (simp add: generate_channels_def generate_object_without_properties)
  then obtain fs0 where 0:
    "generate_channels 0 ?bad [channels_path \<mapsto> ''a''] = Some (fs0, Inl TypeError)"
    by blast
  from abort_before_second_target_writes_nothing
         [of 0 ?bad "[channels_path \<mapsto> ''a'']" fs0 TypeError] 0
  have 1: "generate_channels 0 ?bad [channels_path \<mapsto> ''a'']
     = Some ([channels_path \<mapsto> ''a''], Inl TypeError)"
    by simp
  obtain out where out: "generate 0 [] = Some (Inr out)"
    using generate_empty_document by blast
  have "\<exists>fs' status. generate_channels 0 [] [channels_path \<mapsto> ''a'', validator_path \<mapsto> ''b'']
          = Some (fs', Inr status)"
    using out paths_differ by (simp add: generate_channels_def writeBoth_cases)
  then obtain fs' status where 2:
    "generate_channels 0 [] [channels_path \<mapsto> ''a'', validator_path \<mapsto> ''b'']
       = Some (fs', Inr status)"
    by blast
  from abort_before_second_target_writes_nothing
         [of 0 "[]" "[channels_path \<mapsto> ''a'', validator_path \<mapsto> ''b'']" fs' _ status] 2 out
  have 3: "fs' = [channels_path \<mapsto> join ''\<newline>'' (channels_ts out),
                     validator_path \<mapsto> join ''\<newline>'' (validator_ts out)]"
    by simp
  from abort_before_second_target_writes_nothing
         [of 0 "[]" "[channels_path \<mapsto> ''a'']" _ _ _ out] out paths_differ
  have 4: "generate_channels 0 [] [channels_path \<mapsto> ''a'']
            = Some ([channels_path \<mapsto> join ''\<newline>'' (channels_ts out)],
                    Inl (ENOENT validator_path))"
    by simp
  from 1 2 3 4 out show ?thesis by blast
qed

section \<open>The user agent string: fallback and cache\<close>

lemma determineUserAgent_nonempty: "determineUserAgent env = Inr agent \<Longrightarrow> agent \<noteq> []"
  by (auto simp: determineUserAgent_def Let_def split: sum.splits prod.splits)

lemma getUserAgent_result:
  "\<exists>agent. getUserAgent env c = Inr (agent, Some agent) \<and> agent \<noteq> []"
  by (cases "determineUserAgent env")
     (auto simp: getUserAgent_def isSet_def Let_def determineUserAgent_nonempty split: option.splits)

lemma getUserAgent_cached:
  "agent \<noteq> [] \<Longrightarrow> getUserAgent env (Some agent) = Inr (agent, Some agent)"
  by (simp add: getUserAgent_def isSet_def)

lemma calls_cached: "agent \<noteq> [] \<Longrightarrow> calls envs (Some agent) = replicate (length envs) agent"
  by (induction envs) (simp_all add: getUserAgent_cached)

text \<open>
  Claim C10.  \<open>getUserAgent\<close> never throws, whatever the cache and the environment; when
  \<open>determineUserAgent\<close> throws on the first call, the result is the fallback
  \<open>Playwright/unknown\<close>; and in a sequence of calls that starts with an empty cache, made
  in environments that may differ from call to call, every call returns the string that
  the first call returned.
\<close>

theorem getUserAgent_never_throws_and_caches:
  "(\<exists>agent cached. getUserAgent env c = Inr (agent, cached))
   \<and> (\<forall>e. determineUserAgent env = Inl e \<longrightarrow>
          getUserAgent env None = Inr (''Playwright/unknown'', Some ''Playwright/unknown''))
   \<and> (\<exists>agent. getUserAgent env None = Inr (agent, Some agent)
          \<and> calls (env # envs) None = agent # replicate (length envs) agent)"
proof (intro conjI)
  show "\<exists>agent cached. getUserAgent env c = Inr (agent, cached)"
    using getUserAgent_result [of env c] by blast
  show "\<forall>e. determineUserAgent env = Inl e \<longrightarrow>
          getUserAgent env None = Inr (''Playwright/unknown'', Some ''Playwright/unknown'')"
    by (simp add: getUserAgent_def isSet_def Let_def)
  obtain agent where a: "getUserAgent env None = Inr (agent, Some agent)" "agent \<noteq> []"
    using getUserAgent_result [of env None] by blast
  then show "\<exists>agent. getUserAgent env None = Inr (agent, Some agent)
          \<and> calls (env # envs) None = agent # replicate (length envs) agent"
    by (simp add: calls_cached)
qed

text \<open>
  On a Mac where \<open>sw_vers\<close> cannot be run, the first call falls back, and a later call on a
  Linux machine under CI still returns the fallback.
\<close>

theorem getUserAgent_never_throws_and_caches_witness:
  "determineUserAgent \<lparr>platform = ''darwin'', os_release = ''23.1.0'', os_arch = ''arm64'',
      sw_vers = Inl (JsError ''ENOENT''), linuxDistributionInfo = Inr None, env_CI = None,
      env_PW_LANG_NAME = None, env_PW_LANG_NAME_VERSION = None, process_version = ''v18.1.0'',
      packageJson_version = Inr ''1.30.0''\<rparr> = Inl (JsError ''ENOENT'')
   \<and> calls [\<lparr>platform = ''darwin'', os_release = ''23.1.0'', os_arch = ''arm64'',
      sw_vers = Inl (JsError ''ENOENT''), linuxDistributionInfo = Inr None, env_CI = None,
      env_PW_LANG_NAME = None, env_PW_LANG_NAME_VERSION = None, process_version = ''v18.1.0'',
      packageJson_version = Inr ''1.30.0''\<rparr>,
      \<lparr>platform = ''linux'', os_release = ''6.1'', os_arch = ''x64'',
      sw_vers = Inl (JsError ''ENOENT''), linuxDistributionInfo = Inr None, env_CI = Some ''1'',
      env_PW_LANG_NAME = None, env_PW_LANG_NAME_VERSION = None, process_version = ''v18.1.0'',
      packageJson_version = Inr ''1.30.0''\<rparr>] None = [''Playwright/unknown'', ''Playwright/unknown'']"
  using getUserAgent_never_throws_and_caches [of
      "\<lparr>platform = ''darwin'', os_release = ''23.1.0'', os_arch = ''arm64'',
      sw_vers = Inl (JsError ''ENOENT''), linuxDistributionInfo = Inr None, env_CI = None,
      env_PW_LANG_NAME = None, env_PW_LANG_NAME_VERSION = None, process_version = ''v18.1.0'',
      packageJson_version = Inr ''1.30.0''\<rparr>" None
      "[\<lparr>platform = ''linux'', os_release = ''6.1'', os_arch = ''x64'',
      sw_vers = Inl (JsError ''ENOENT''), linuxDistributionInfo = Inr None, env_CI = Some ''1'',
      env_PW_LANG_NAME = None, env_PW_LANG_NAME_VERSION = None, process_version = ''v18.1.0'',
      packageJson_version = Inr ''1.30.0''\<rparr>]"]
  by (simp add: determineUserAgent_def osIdentifierAndVersion_def getUserAgent_def isSet_def Let_def)

end
